theory Spec2Isabelle
  imports Main "HOL-Library.Sublist" "HOL-Library.AList"
begin

section \<open>Strings\<close>

text \<open>
  A JavaScript string is a sequence of code units. The development works over the
  code units below 256 (ASCII and the Latin-1 supplement), which is what
  \<^typ>\<open>char\<close> holds; \<^typ>\<open>string\<close> is a list of them.
\<close>

definition isUpperUnit :: "char \<Rightarrow> bool" where
  \<comment> \<open>The code units below 256 that \<open>toLowerCase\<close> changes: A-Z, and U+00C0-U+00DE
      without the multiplication sign U+00D7.\<close>
  "isUpperUnit c = (let n = (of_char c :: nat) in
     (65 \<le> n \<and> n \<le> 90) \<or> (192 \<le> n \<and> n \<le> 222 \<and> n \<noteq> 215))"

definition lowerUnit :: "char \<Rightarrow> char" where
  "lowerUnit c = (if isUpperUnit c then char_of (of_char c + (32::nat)) else c)"

definition toLowerCase :: "string \<Rightarrow> string" where
  "toLowerCase s = map lowerUnit s"

definition isWhiteSpace :: "char \<Rightarrow> bool" where
  \<comment> \<open>White space and line terminators below 256: TAB, LF, VT, FF, CR, SP, NBSP.\<close>
  "isWhiteSpace c = (of_char c \<in> {9, 10, 11, 12, 13, 32, 160 :: nat})"

definition trim :: "string \<Rightarrow> string" where
  "trim s = rev (dropWhile isWhiteSpace (rev (dropWhile isWhiteSpace s)))"

fun str_includes :: "string \<Rightarrow> string \<Rightarrow> bool" where
  \<comment> \<open>\<open>s.includes(sub)\<close>: \<open>sub\<close> occurs in \<open>s\<close> as a contiguous run.\<close>
  "str_includes [] sub = (sub = [])"
| "str_includes (c # cs) sub = (prefix sub (c # cs) \<or> str_includes cs sub)"

fun split :: "char \<Rightarrow> string \<Rightarrow> string list" where
  \<comment> \<open>\<open>s.split(sep)\<close> for a one-unit separator; the result is never empty.\<close>
  "split sep [] = [[]]"
| "split sep (c # cs) =
     (if c = sep then [] # split sep cs
      else (case split sep cs of [] \<Rightarrow> [[c]] | w # ws \<Rightarrow> (c # w) # ws))"

definition digitUnit :: "nat \<Rightarrow> char" where
  "digitUnit d = char_of (48 + d)"

fun show_nat :: "nat \<Rightarrow> string" where
  \<comment> \<open>A non-negative integer inside a template literal: its decimal digits.\<close>
  "show_nat n = (if n < 10 then [digitUnit n] else show_nat (n div 10) @ [digitUnit (n mod 10)])"

declare show_nat.simps [simp del]

definition dquote :: char where
  "dquote = CHR 0x22"

section \<open>Objects used as dictionaries\<close>

text \<open>
  An object used as a dictionary (\<open>CSVRow\<close>, \<open>MappingConfig\<close>, the person payload)
  is the association list of its own properties, in insertion order. Enumeration
  (\<open>Object.entries\<close>, \<open>Object.values\<close>) lists the keys that are array indices
  first, in ascending numeric order, and then the other keys in insertion order.

  The objects are ordinary ones, so they inherit from \<open>Object.prototype\<close>. A read
  \<open>obj[k]\<close> of a name the object does not own yields the inherited member when \<open>k\<close>
  names one (a function, or the prototype itself for \<open>__proto__\<close>), and
  \<open>undefined\<close> otherwise. An assignment \<open>obj[k] = v\<close> stores an own property
  (overwriting in place, or appending), except under the name \<open>__proto__\<close>: that is an
  accessor of the prototype, whose setter stores nothing in the object (it ignores a
  primitive value and re-links the prototype to an object value). A computed key of an
  object literal, as in \<open>{ ...mapping, [header]: value }\<close>, always defines an own
  property.
\<close>

type_synonym 'v jsobj = "(string \<times> 'v) list"

definition isDigitUnit :: "char \<Rightarrow> bool" where
  "isDigitUnit c = (let n = (of_char c :: nat) in 48 \<le> n \<and> n \<le> 57)"

definition digitsValue :: "string \<Rightarrow> nat" where
  "digitsValue s = foldl (\<lambda>acc c. 10 * acc + (of_char c - 48)) 0 s"

definition isArrayIndex :: "string \<Rightarrow> bool" where
  \<comment> \<open>A canonical numeric string of an integer below \<open>2^32 - 1\<close>.\<close>
  "isArrayIndex k = (k \<noteq> [] \<and> list_all isDigitUnit k \<and> (length k = 1 \<or> hd k \<noteq> CHR ''0'')
     \<and> digitsValue k < 4294967295)"

definition ownEntries :: "'v jsobj \<Rightarrow> (string \<times> 'v) list" where
  "ownEntries obj =
     sort_key (\<lambda>(k, v). digitsValue k) (filter (\<lambda>(k, v). isArrayIndex k) obj)
     @ filter (\<lambda>(k, v). \<not> isArrayIndex k) obj"

definition ownValues :: "'v jsobj \<Rightarrow> 'v list" where
  "ownValues obj = map snd (ownEntries obj)"

definition truthy :: "string option \<Rightarrow> bool" where
  \<comment> \<open>Truthiness of a value that is a string, \<open>null\<close> or \<open>undefined\<close>.\<close>
  "truthy t = (case t of None \<Rightarrow> False | Some s \<Rightarrow> s \<noteq> [])"

definition objectPrototypeNames :: "string list" where
  \<comment> \<open>The property names of \<open>Object.prototype\<close>.\<close>
  "objectPrototypeNames =
     [''constructor'', ''__defineGetter__'', ''__defineSetter__'', ''hasOwnProperty'',
      ''__lookupGetter__'', ''__lookupSetter__'', ''isPrototypeOf'', ''propertyIsEnumerable'',
      ''toString'', ''valueOf'', ''__proto__'', ''toLocaleString'']"

datatype jsread = Undefined | Str string | Inherited string
  \<comment> \<open>What reading a property of a row yields: \<open>undefined\<close>, an own string, or the
      member of \<open>Object.prototype\<close> of that name, which is an object and no string.\<close>

definition readProp :: "string jsobj \<Rightarrow> string \<Rightarrow> jsread" where
  \<comment> \<open>\<open>obj[k]\<close>\<close>
  "readProp obj k =
     (case map_of obj k of
        Some s \<Rightarrow> Str s
      | None \<Rightarrow> if k \<in> set objectPrototypeNames then Inherited k else Undefined)"

definition writeProp :: "string \<Rightarrow> 'v \<Rightarrow> 'v jsobj \<Rightarrow> 'v jsobj" where
  \<comment> \<open>\<open>obj[k] = v\<close>\<close>
  "writeProp k v obj = (if k = ''__proto__'' then obj else AList.update k v obj)"

section \<open>The entity client\<close>

text \<open>
  Every data operation is a call to the entity client. A handler is modelled by the
  state it leaves and by the trace of what it does to the outside: the calls it issues and
  the notifications it shows. What a call answers is an input of the handler: an awaited
  promise either rejects or resolves.
\<close>

datatype 'a outcome = Rejected | Resolved 'a

record response =
  success :: bool
  message :: "string option"

record profile_field =
  \<comment> \<open>\<open>ProfileFieldDef\<close>; \<open>None\<close> is \<open>undefined\<close>. The attributes no modelled
      handler reads (type, options, required, visibility) are left out.\<close>
  fid :: "string option"
  fkey :: "string option"
  flabel :: "string option"
  archived :: bool
  orderIndex :: nat

record field_list_response = response +
  \<comment> \<open>What \<open>ProfileFieldDef.list()\<close> resolves to; a single object as \<open>data\<close> is the
      one-element list.\<close>
  fdata :: "profile_field list"

record person_data =
  \<comment> \<open>The object \<open>personData\<close> that the import sends: its top-level attributes and its
      \<open>fields\<close> object (\<open>dynFields\<close>).\<close>
  attrs :: "jsread jsobj"
  dynFields :: "jsread jsobj"

datatype entity = Person | Household | HouseholdMember | TagEntity | ProfileFieldDef

datatype payload =
  PersonData person_data
  | HouseholdIdNull
  | OrderIndex nat

datatype call =
  ListCall entity
  | GetCall entity string
  | CreateCall entity payload
  | UpdateCall entity "string option" payload

datatype effect =
  Call call
  | MessageSuccess string
  | MessageError string
  | MessageWarning string
  | OnSuccess
  | OnClose

fun isMutating :: "effect \<Rightarrow> bool" where
  "isMutating (Call (CreateCall e p)) = True"
| "isMutating (Call (UpdateCall e i p)) = True"
| "isMutating x = False"

section \<open>Field definitions: key generation\<close>

definition underscore :: char where
  "underscore = CHR ''_''"

definition isKeyUnit :: "char \<Rightarrow> bool" where
  \<comment> \<open>The character class \<open>[a-z0-9]\<close>.\<close>
  "isKeyUnit c = (let n = (of_char c :: nat) in (97 \<le> n \<and> n \<le> 122) \<or> (48 \<le> n \<and> n \<le> 57))"

definition replaceNonKey :: "string \<Rightarrow> string" where
  \<comment> \<open>\<open>.replace(/[^a-z0-9]/g, '_')\<close>\<close>
  "replaceNonKey s = map (\<lambda>c. if isKeyUnit c then c else underscore) s"

function collapseRuns :: "string \<Rightarrow> string" where
  \<comment> \<open>\<open>.replace(/_+/g, '_')\<close>: every maximal run of underscores becomes one.\<close>
  "collapseRuns [] = []"
| "collapseRuns (c # cs) =
     (if c = underscore then underscore # collapseRuns (dropWhile (\<lambda>d. d = underscore) cs)
      else c # collapseRuns cs)"
  by pat_completeness auto
termination
  by (relation "measure length") (auto simp: length_dropWhile_le less_Suc_eq_le)

definition stripEnds :: "string \<Rightarrow> string" where
  \<comment> \<open>\<open>.replace(/^_|_$/g, '')\<close>: one underscore at the start and one at the end.\<close>
  "stripEnds s =
     (let s1 = (if s \<noteq> [] \<and> hd s = underscore then tl s else s)
      in if s1 \<noteq> [] \<and> last s1 = underscore then butlast s1 else s1)"

definition generateKey :: "string \<Rightarrow> string" where
  "generateKey label = stripEnds (collapseRuns (replaceNonKey (toLowerCase label)))"

fun noDoubleUnderscore :: "string \<Rightarrow> bool" where
  "noDoubleUnderscore (c # d # cs) = (\<not> (c = underscore \<and> d = underscore) \<and> noDoubleUnderscore (d # cs))"
| "noDoubleUnderscore cs = True"


definition keyUnit :: "char \<Rightarrow> bool" where
  "keyUnit c = (isKeyUnit c \<or> c = underscore)"

section \<open>CSV import\<close>

datatype js_error = TypeError

record core_field =
  ckey :: string
  clabel :: string
  crequired :: bool

definition coreFields :: "core_field list" where
  "coreFields =
     [\<lparr>ckey = ''firstName'', clabel = ''First Name'', crequired = True\<rparr>,
      \<lparr>ckey = ''lastName'', clabel = ''Last Name'', crequired = True\<rparr>,
      \<lparr>ckey = ''preferredName'', clabel = ''Preferred Name'', crequired = False\<rparr>,
      \<lparr>ckey = ''email'', clabel = ''Email'', crequired = False\<rparr>,
      \<lparr>ckey = ''phone'', clabel = ''Phone'', crequired = False\<rparr>,
      \<lparr>ckey = ''status'', clabel = ''Status'', crequired = True\<rparr>]"

record import_state =
  currentStep :: nat
  csvData :: "string jsobj list"
  csvHeaders :: "string list"
  mapping :: "string option jsobj"
  profileFields :: "profile_field list"
  validationErrors :: "string list"
  importing :: bool

definition initialState :: import_state where
  "initialState = \<lparr>currentStep = 0, csvData = [], csvHeaders = [], mapping = [],
     profileFields = [], validationErrors = [], importing = False\<rparr>"

subsection \<open>Upload: \<open>handleFileUpload\<close>\<close>

definition stripQuotes :: "string \<Rightarrow> string" where
  \<comment> \<open>\<open>.replace(/"/g, '')\<close>\<close>
  "stripQuotes s = filter (\<lambda>c. c \<noteq> dquote) s"

definition cells :: "string \<Rightarrow> string list" where
  \<comment> \<open>\<open>line.split(',').map(v => v.trim().replace(/"/g, ''))\<close>\<close>
  "cells line = map (\<lambda>v. stripQuotes (trim v)) (split (CHR '','') line)"

definition cellOr :: "string list \<Rightarrow> nat \<Rightarrow> string" where
  \<comment> \<open>\<open>values[index] || ''\<close>: an index past the end reads \<open>undefined\<close>, which is
      falsy, as the empty string is.\<close>
  "cellOr vs index = (if index < length vs \<and> vs ! index \<noteq> [] then vs ! index else [])"

definition parseRow :: "string list \<Rightarrow> string \<Rightarrow> string jsobj" where
  "parseRow headers line =
     (let vs = cells line
      in fold (\<lambda>(header, index) row. writeProp header (cellOr vs index) row)
           (zip headers [0 ..< length headers]) [])"

definition autoTarget :: "string \<Rightarrow> string option" where
  "autoTarget header =
     (let lowerHeader = toLowerCase header
      in if str_includes lowerHeader ''first'' \<and> str_includes lowerHeader ''name''
           then Some ''firstName''
         else if str_includes lowerHeader ''last'' \<and> str_includes lowerHeader ''name''
           then Some ''lastName''
         else if str_includes lowerHeader ''email'' then Some ''email''
         else if str_includes lowerHeader ''phone'' then Some ''phone''
         else if str_includes lowerHeader ''status'' then Some ''status''
         else None)"

definition autoMap :: "string list \<Rightarrow> string option jsobj" where
  "autoMap headers =
     fold (\<lambda>header autoMapping.
             (case autoTarget header of
                Some target \<Rightarrow> AList.update header (Some target) autoMapping
              | None \<Rightarrow> autoMapping))
          headers []"

definition fileLines :: "string \<Rightarrow> string list" where
  \<comment> \<open>The lines of the file, split at line feeds, without the blank ones.\<close>
  "fileLines text = filter (\<lambda>line. trim line \<noteq> []) (split (CHR 0x0A) text)"

definition handleFileUpload ::
    "string outcome \<Rightarrow> field_list_response outcome \<Rightarrow> import_state \<Rightarrow> import_state \<times> effect list" where
  "handleFileUpload fileText fieldsResponse st =
     (case fileText of
        Rejected \<Rightarrow> (st, [MessageError ''Failed to parse CSV file''])
      | Resolved text \<Rightarrow>
          (let lines = fileLines text
           in if length lines < 2
              then (st, [MessageError ''CSV file must have at least a header row and one data row''])
              else
                (let headers = cells (hd lines);
                     data = map (parseRow headers) (tl lines);
                     st1 = st\<lparr>csvHeaders := headers, csvData := data, currentStep := 1\<rparr>
                 in (case fieldsResponse of
                       Rejected \<Rightarrow>
                         (st1, [Call (ListCall ProfileFieldDef),
                                MessageError ''Failed to parse CSV file''])
                     | Resolved r \<Rightarrow>
                         (let st2 = (if success r
                                     then st1\<lparr>profileFields := filter (\<lambda>field. \<not> archived field) (fdata r)\<rparr>
                                     else st1)
                          in (st2\<lparr>mapping := autoMap headers\<rparr>,
                              [Call (ListCall ProfileFieldDef)]))))))"

definition chooseTarget :: "string \<Rightarrow> string option \<Rightarrow> import_state \<Rightarrow> import_state" where
  \<comment> \<open>The column selector: \<open>setMapping({ ...mapping, [header]: value })\<close>.\<close>
  "chooseTarget header v st = st\<lparr>mapping := AList.update header v (mapping st)\<rparr>"

subsection \<open>Validation: \<open>validateMapping\<close>\<close>

definition requiredMessage :: "string \<Rightarrow> string" where
  "requiredMessage label = ''Required field '' @ [dquote] @ label @ [dquote] @ '' is not mapped''"

definition statusMessage :: "nat \<Rightarrow> string \<Rightarrow> string" where
  "statusMessage rowNumber v =
     ''Row '' @ show_nat rowNumber @ '': Invalid status '' @ [dquote] @ v @ [dquote]
       @ ''. Must be active, inactive, or visitor''"

definition emailMessage :: "nat \<Rightarrow> string \<Rightarrow> string" where
  "emailMessage rowNumber v =
     ''Row '' @ show_nat rowNumber @ '': Invalid email '' @ [dquote] @ v @ [dquote]"

definition requiredErrors :: "string option jsobj \<Rightarrow> string list" where
  "requiredErrors m =
     (let mappedFields = filter truthy (ownValues m);
          requiredFields = filter crequired coreFields
      in fold (\<lambda>field errors.
                 if Some (ckey field) \<notin> set mappedFields
                 then errors @ [requiredMessage (clabel field)] else errors)
              requiredFields [])"

definition statusCheck ::
    "nat \<Rightarrow> string option \<Rightarrow> jsread \<Rightarrow> string list \<Rightarrow> js_error + string list" where
  \<comment> \<open>\<open>targetField === 'status' && ![...].includes(value.toLowerCase())\<close>: calling
      \<open>value.toLowerCase\<close> raises a TypeError when \<open>value\<close> is \<open>undefined\<close> or an
      inherited member, which has no such method.\<close>
  "statusCheck index targetField v errors =
     (if targetField = Some ''status''
      then (case v of
              Str s \<Rightarrow>
                if toLowerCase s \<notin> set [''active'', ''inactive'', ''visitor'']
                then Inr (errors @ [statusMessage (index + 1) s]) else Inr errors
            | Undefined \<Rightarrow> Inl TypeError
            | Inherited k \<Rightarrow> Inl TypeError)
      else Inr errors)"

definition emailCheck ::
    "nat \<Rightarrow> string option \<Rightarrow> jsread \<Rightarrow> string list \<Rightarrow> js_error + string list" where
  \<comment> \<open>\<open>targetField === 'email' && value && !value.includes('@')\<close>: \<open>undefined\<close> and the
      empty string are falsy; an inherited member is truthy and has no \<open>includes\<close>, so the
      call raises a TypeError.\<close>
  "emailCheck index targetField v errors =
     (if targetField = Some ''email''
      then (case v of
              Undefined \<Rightarrow> Inr errors
            | Str s \<Rightarrow>
                if s \<noteq> [] \<and> \<not> str_includes s ''@''
                then Inr (errors @ [emailMessage (index + 1) s]) else Inr errors
            | Inherited k \<Rightarrow> Inl TypeError)
      else Inr errors)"

fun validateEntries ::
    "nat \<Rightarrow> string jsobj \<Rightarrow> (string \<times> string option) list \<Rightarrow> string list \<Rightarrow> js_error + string list" where
  "validateEntries index row [] errors = Inr errors"
| "validateEntries index row ((csvCol, targetField) # rest) errors =
     (if \<not> truthy targetField then validateEntries index row rest errors
      else (case statusCheck index targetField (readProp row csvCol) errors of
              Inl e \<Rightarrow> Inl e
            | Inr errors1 \<Rightarrow>
                (case emailCheck index targetField (readProp row csvCol) errors1 of
                   Inl e \<Rightarrow> Inl e
                 | Inr errors2 \<Rightarrow> validateEntries index row rest errors2)))"

fun validateRows ::
    "nat \<Rightarrow> string jsobj list \<Rightarrow> (string \<times> string option) list \<Rightarrow> string list \<Rightarrow> js_error + string list" where
  "validateRows index [] entries errors = Inr errors"
| "validateRows index (row # rows) entries errors =
     (case validateEntries index row entries errors of
        Inl e \<Rightarrow> Inl e
      | Inr errors1 \<Rightarrow> validateRows (Suc index) rows entries errors1)"

definition validationResult :: "import_state \<Rightarrow> js_error + string list" where
  \<comment> \<open>The list \<open>errors\<close> that \<open>validateMapping\<close> builds.\<close>
  "validationResult st =
     validateRows 0 (take 5 (csvData st)) (ownEntries (mapping st)) (requiredErrors (mapping st))"

definition validateMapping :: "import_state \<Rightarrow> js_error + (import_state \<times> bool)" where
  "validateMapping st =
     (case validationResult st of
        Inl e \<Rightarrow> Inl e
      | Inr errors \<Rightarrow> Inr (st\<lparr>validationErrors := errors\<rparr>, length errors = 0))"

definition clickNext :: "import_state \<Rightarrow> js_error + import_state" where
  \<comment> \<open>The Next button, shown while \<open>currentStep < 2\<close>.\<close>
  "clickNext st =
     (if currentStep st = 1
      then (case validateMapping st of
              Inl e \<Rightarrow> Inl e
            | Inr (st1, ok) \<Rightarrow> Inr (st1\<lparr>currentStep := currentStep st + 1\<rparr>))
      else Inr (st\<lparr>currentStep := currentStep st + 1\<rparr>))"

definition clickPrevious :: "import_state \<Rightarrow> import_state" where
  \<comment> \<open>The Previous button, shown while \<open>currentStep > 0\<close>.\<close>
  "clickPrevious st = st\<lparr>currentStep := currentStep st - 1\<rparr>"

definition importDisabled :: "import_state \<Rightarrow> bool" where
  \<comment> \<open>The Import People button: \<open>disabled={validationErrors.length > 0}\<close>.\<close>
  "importDisabled st = (length (validationErrors st) > 0)"

subsection \<open>Import: \<open>handleImport\<close>\<close>

definition isCoreKey :: "string \<Rightarrow> bool" where
  \<comment> \<open>\<open>coreFields.some(f => f.key === targetField)\<close>\<close>
  "isCoreKey targetField = list_ex (\<lambda>f. ckey f = targetField) coreFields"

definition assignTarget :: "string jsobj \<Rightarrow> string \<times> string option \<Rightarrow> person_data \<Rightarrow> person_data" where
  "assignTarget row = (\<lambda>(csvCol, targetField) personData.
     (case targetField of
        None \<Rightarrow> personData
      | Some target \<Rightarrow>
          if target = [] then personData
          else if isCoreKey target
          then personData\<lparr>attrs := writeProp target (readProp row csvCol) (attrs personData)\<rparr>
          else personData\<lparr>dynFields := writeProp target (readProp row csvCol) (dynFields personData)\<rparr>))"

definition buildPerson :: "string option jsobj \<Rightarrow> string jsobj \<Rightarrow> person_data" where
  "buildPerson m row =
     fold (assignTarget row) (ownEntries m)
       \<lparr>attrs = [(''status'', Str ''active'')], dynFields = []\<rparr>"

fun importRows ::
    "(person_data \<Rightarrow> 'w \<Rightarrow> bool \<times> 'w) \<Rightarrow> string option jsobj \<Rightarrow> string jsobj list
       \<Rightarrow> nat \<times> nat \<times> effect list \<times> 'w \<Rightarrow> nat \<times> nat \<times> effect list \<times> 'w" where
  \<comment> \<open>The loop over \<open>csvData\<close>. \<open>create personData w\<close> is \<open>Person.create\<close> on the
      server state \<open>w\<close>: whether the call resolved, and the state it leaves.\<close>
  "importRows create m [] acc = acc"
| "importRows create m (row # rows) (successCount, errorCount, trace, w) =
     (let personData = buildPerson m row;
          (resolved, w1) = create personData w;
          trace1 = trace @ [Call (CreateCall Person (PersonData personData))]
      in if resolved
         then importRows create m rows (successCount + 1, errorCount, trace1, w1)
         else importRows create m rows (successCount, errorCount + 1, trace1, w1))"

definition completedMessage :: "nat \<Rightarrow> nat \<Rightarrow> string" where
  "completedMessage successCount errorCount =
     ''Import completed: '' @ show_nat successCount @ '' people imported, ''
       @ show_nat errorCount @ '' errors''"

definition handleClose :: "import_state \<Rightarrow> import_state" where
  "handleClose st = st\<lparr>currentStep := 0, csvData := [], csvHeaders := [], mapping := [],
     validationErrors := []\<rparr>"

definition handleImport ::
    "(person_data \<Rightarrow> 'w \<Rightarrow> bool \<times> 'w) \<Rightarrow> import_state \<Rightarrow> 'w
       \<Rightarrow> js_error + (import_state \<times> effect list \<times> 'w)" where
  "handleImport create st w =
     (case validateMapping st of
        Inl e \<Rightarrow> Inl e
      | Inr (st1, ok) \<Rightarrow>
          if \<not> ok
          then Inr (st1, [MessageError ''Please fix validation errors before importing''], w)
          else (case importRows create (mapping st) (csvData st) (0, 0, [], w) of
                  (successCount, errorCount, trace, w1) \<Rightarrow>
                    Inr ((handleClose st1)\<lparr>importing := False\<rparr>,
                         trace @ [MessageSuccess (completedMessage successCount errorCount),
                                  OnSuccess, OnClose],
                         w1)))"

definition importTrace ::
    "(person_data \<Rightarrow> 'w \<Rightarrow> bool \<times> 'w) \<Rightarrow> import_state \<Rightarrow> 'w \<Rightarrow> effect list" where
  \<comment> \<open>What a run of \<open>handleImport\<close> does to the outside; nothing when it raises.\<close>
  "importTrace create st w =
     (case handleImport create st w of
        Inl e \<Rightarrow> []
      | Inr (st1, trace, w1) \<Rightarrow> trace)"

definition autoStep :: "string \<Rightarrow> string option jsobj \<Rightarrow> string option jsobj" where
  "autoStep header autoMapping =
     (case autoTarget header of
        Some target \<Rightarrow> AList.update header (Some target) autoMapping
      | None \<Rightarrow> autoMapping)"

definition autoRules :: "(string list \<times> string) list" where
  \<comment> \<open>The precedence the specification states: the substrings a lower-cased header must
      contain, and the target they select; earlier rules win.\<close>
  "autoRules =
     [([''first'', ''name''], ''firstName''),
      ([''last'', ''name''], ''lastName''),
      ([''email''], ''email''),
      ([''phone''], ''phone''),
      ([''status''], ''status'')]"

definition firstMatch :: "string \<Rightarrow> string option" where
  "firstMatch header =
     map_option snd
       (find (\<lambda>(patterns, target). list_all (str_includes (toLowerCase header)) patterns)
          autoRules)"

subsection \<open>Validation where no check raises\<close>

definition entryReadable :: "string jsobj \<Rightarrow> string \<times> string option \<Rightarrow> bool" where
  \<comment> \<open>The two checks return on this entry: a column mapped to the status reads a string,
      a column mapped to the email reads a string or \<open>undefined\<close>.\<close>
  "entryReadable row = (\<lambda>(csvCol, targetField).
     (targetField = Some ''status'' \<longrightarrow>
        (case readProp row csvCol of Str s \<Rightarrow> True | Undefined \<Rightarrow> False | Inherited k \<Rightarrow> False))
     \<and> (targetField = Some ''email'' \<longrightarrow>
        (case readProp row csvCol of Str s \<Rightarrow> True | Undefined \<Rightarrow> True | Inherited k \<Rightarrow> False)))"

definition columnsReadable :: "import_state \<Rightarrow> bool" where
  "columnsReadable st =
     list_all (\<lambda>row. list_all (entryReadable row) (mapping st)) (take 5 (csvData st))"

definition entryErrors :: "nat \<Rightarrow> string jsobj \<Rightarrow> string \<times> string option \<Rightarrow> string list" where
  \<comment> \<open>What one entry of the mapping adds to the error list on one row.\<close>
  "entryErrors index row = (\<lambda>(csvCol, targetField).
     (case readProp row csvCol of
        Str s \<Rightarrow>
          (if targetField = Some ''status''
              \<and> toLowerCase s \<notin> set [''active'', ''inactive'', ''visitor'']
           then [statusMessage (index + 1) s] else [])
          @ (if targetField = Some ''email'' \<and> s \<noteq> [] \<and> \<not> str_includes s ''@''
             then [emailMessage (index + 1) s] else [])
      | Undefined \<Rightarrow> []
      | Inherited k \<Rightarrow> []))"

definition rowErrors :: "(string \<times> string option) list \<Rightarrow> nat \<times> string jsobj \<Rightarrow> string list" where
  "rowErrors entries = (\<lambda>(index, row). concat (map (entryErrors index row) entries))"

subsection \<open>Runs of the create call\<close>

fun createOutcomes :: "(person_data \<Rightarrow> 'w \<Rightarrow> bool \<times> 'w) \<Rightarrow> person_data list \<Rightarrow> 'w \<Rightarrow> bool list" where
  \<comment> \<open>Whether each of a sequence of create calls resolves, the server state being threaded
      through them.\<close>
  "createOutcomes create [] w = []"
| "createOutcomes create (p # ps) w =
     (case create p w of (resolved, w1) \<Rightarrow> resolved # createOutcomes create ps w1)"

definition createCall :: "person_data \<Rightarrow> effect" where
  "createCall personData = Call (CreateCall Person (PersonData personData))"


definition acceptAll :: "person_data \<Rightarrow> unit \<Rightarrow> bool \<times> unit" where
  \<comment> \<open>A server that accepts every create call.\<close>
  "acceptAll personData u = (True, u)"

subsection \<open>Sample files and the states they lead to\<close>

definition okResponse :: field_list_response where
  "okResponse = \<lparr>success = True, message = None, fdata = []\<rparr>"

definition sampleCsv :: string where
  "sampleCsv = ''First Name,Last Name,Email,Phone,Status'' @ [CHR 0x0A]
     @ ''John,Doe,john@example.com,(555) 123-4567,active''"




definition memberCsv :: string where
  "memberCsv = ''First Name,Last Name,Status'' @ [CHR 0x0A] @ ''John,Doe,member''"

definition retypedCsv :: string where
  \<comment> \<open>The file of \<open>memberCsv\<close> put right, its third column under another header.\<close>
  "retypedCsv = ''First Name,Last Name,Member Type'' @ [CHR 0x0A] @ ''John,Doe,visitor''"

definition staleState :: import_state where
  \<comment> \<open>\<open>memberCsv\<close> is uploaded; the user goes back to the upload step and uploads
      \<open>retypedCsv\<close>; this time the call that lists the field definitions rejects. The
      handler has stored the new headers and rows and leaves the mapping of the first
      file.\<close>
  "staleState =
     fst (handleFileUpload (Resolved retypedCsv) Rejected
            (clickPrevious
               (fst (handleFileUpload (Resolved memberCsv) (Resolved okResponse) initialState))))"

definition contactCsv :: string where
  "contactCsv = ''Name,constructor'' @ [CHR 0x0A] @ ''Ann,ann@example.com''"

definition renamedCsv :: string where
  "renamedCsv = ''Name,Email'' @ [CHR 0x0A] @ ''Ann,ann@example.com''"

definition staleEmailState :: import_state where
  \<comment> \<open>As \<open>staleState\<close>: the user has mapped the column \<open>constructor\<close> of the first
      file to the email, and the second upload leaves that mapping.\<close>
  "staleEmailState =
     fst (handleFileUpload (Resolved renamedCsv) Rejected
            (clickPrevious
               (chooseTarget ''constructor'' (Some ''email'')
                  (fst (handleFileUpload (Resolved contactCsv) (Resolved okResponse) initialState)))))"

definition validCsv :: string where
  "validCsv = ''First Name,Last Name,Status'' @ [CHR 0x0A] @ ''John,Doe,active''"

definition surnameCsv :: string where
  \<comment> \<open>The file of \<open>validCsv\<close> with its second column under another header.\<close>
  "surnameCsv = ''First Name,Surname,Status'' @ [CHR 0x0A] @ ''John,Doe,active''"

definition surnameState :: import_state where
  \<comment> \<open>As \<open>staleState\<close>, from \<open>validCsv\<close> and then \<open>surnameCsv\<close>.\<close>
  "surnameState =
     fst (handleFileUpload (Resolved surnameCsv) Rejected
            (clickPrevious
               (fst (handleFileUpload (Resolved validCsv) (Resolved okResponse) initialState))))"

definition protoCsv :: string where
  "protoCsv = ''Name,__proto__,Status'' @ [CHR 0x0A] @ ''Ann,x,active''"

definition protoState :: import_state where
  "protoState = fst (handleFileUpload (Resolved protoCsv) (Resolved okResponse) initialState)"

section \<open>CSV export: quoting a cell\<close>

definition doubleQuotes :: "string \<Rightarrow> string" where
  \<comment> \<open>\<open>value.replace(/"/g, '""')\<close>\<close>
  "doubleQuotes v = concat (map (\<lambda>c. if c = dquote then [dquote, dquote] else [c]) v)"

definition exportCell :: "string \<Rightarrow> string" where
  \<comment> \<open>What \<open>handleExport\<close> emits for a formatted cell value.\<close>
  "exportCell v =
     (if str_includes v '','' \<or> str_includes v [dquote]
      then [dquote] @ doubleQuotes v @ [dquote]
      else v)"

fun quotesDoubled :: "string \<Rightarrow> string" where
  \<comment> \<open>The specification's wording: the value with every double quote doubled.\<close>
  "quotesDoubled [] = []"
| "quotesDoubled (c # cs) =
     (if c = dquote then dquote # dquote # quotesDoubled cs else c # quotesDoubled cs)"

section \<open>People list: filtering\<close>

datatype jsval = JUndefined | JNull | JBool bool | JNum int | JStr string | JRef nat
  \<comment> \<open>A value of a dynamic field or of a filter. Strict equality \<open>===\<close> is equality of
      these terms: primitives by value, an array or object (\<open>JRef\<close>) by its identity.
      Numbers are the integers.\<close>

record person =
  pid :: string
  firstName :: string
  lastName :: string
  preferredName :: "string option"
  email :: "string option"
  phone :: "string option"
  status :: string
  tagIds :: "string list"
  householdId :: "string option"
  pfields :: "jsval jsobj"

record people_filters =
  \<comment> \<open>\<open>PeopleFilters\<close>: the two declared properties and the other own properties.\<close>
  fstatus :: "string option"
  ftagIds :: "string list option"
  fothers :: "jsval jsobj"

definition optIncludes :: "string option \<Rightarrow> string \<Rightarrow> bool" where
  \<comment> \<open>\<open>x?.toLowerCase().includes(query)\<close>, as a condition.\<close>
  "optIncludes x query = (case x of None \<Rightarrow> False | Some s \<Rightarrow> str_includes (toLowerCase s) query)"

definition matchesSearch :: "person \<Rightarrow> string \<Rightarrow> bool" where
  "matchesSearch p query =
     (str_includes (toLowerCase (firstName p)) query
      \<or> str_includes (toLowerCase (lastName p)) query
      \<or> optIncludes (preferredName p) query
      \<or> optIncludes (email p) query
      \<or> optIncludes (phone p) query)"

definition fieldValue :: "person \<Rightarrow> string \<Rightarrow> jsval" where
  \<comment> \<open>\<open>person.fields[key]\<close>\<close>
  "fieldValue p key = (case map_of (pfields p) key of None \<Rightarrow> JUndefined | Some v \<Rightarrow> v)"

fun dynamicFiltersPass :: "person \<Rightarrow> (string \<times> jsval) list \<Rightarrow> bool" where
  \<comment> \<open>The loop over \<open>Object.entries(filters)\<close>, which returns false at the first active
      entry that the person does not meet.\<close>
  "dynamicFiltersPass p [] = True"
| "dynamicFiltersPass p ((key, v) # rest) =
     (if key \<noteq> ''status'' \<and> key \<noteq> ''tagIds'' \<and> v \<noteq> JUndefined \<and> v \<noteq> JStr []
      then (if fieldValue p key \<noteq> v then False else dynamicFiltersPass p rest)
      else dynamicFiltersPass p rest)"

definition personPasses :: "string \<Rightarrow> people_filters \<Rightarrow> person \<Rightarrow> bool" where
  "personPasses searchQuery filters p =
     (if searchQuery \<noteq> [] \<and> \<not> matchesSearch p (toLowerCase searchQuery) then False
      else if truthy (fstatus filters) \<and> Some (status p) \<noteq> fstatus filters then False
      else if (case ftagIds filters of
                 None \<Rightarrow> False
               | Some ids \<Rightarrow> length ids > 0 \<and> \<not> list_ex (\<lambda>tagId. tagId \<in> set (tagIds p)) ids)
           then False
      else dynamicFiltersPass p (ownEntries (fothers filters)))"

definition filteredPeople :: "string \<Rightarrow> people_filters \<Rightarrow> person list \<Rightarrow> person list" where
  "filteredPeople searchQuery filters people = filter (personPasses searchQuery filters) people"

subsection \<open>The specification's predicates\<close>

definition searchable :: "person \<Rightarrow> string list" where
  \<comment> \<open>First name, last name, and the preferred name, email and phone that are present.\<close>
  "searchable p =
     [firstName p, lastName p]
     @ concat (map (\<lambda>x. case x of None \<Rightarrow> [] | Some s \<Rightarrow> [s]) [preferredName p, email p, phone p])"

definition searchPredicate :: "string \<Rightarrow> person \<Rightarrow> bool" where
  "searchPredicate q p = list_ex (\<lambda>s. str_includes (toLowerCase s) (toLowerCase q)) (searchable p)"

definition dynamicActive :: "string \<times> jsval \<Rightarrow> bool" where
  "dynamicActive = (\<lambda>(key, v). key \<noteq> ''status'' \<and> key \<noteq> ''tagIds'' \<and> v \<noteq> JUndefined \<and> v \<noteq> JStr [])"

definition satisfiesAll :: "string \<Rightarrow> people_filters \<Rightarrow> person \<Rightarrow> bool" where
  \<comment> \<open>The conjunction of the active predicates.\<close>
  "satisfiesAll q f p =
     ((q \<noteq> [] \<longrightarrow> searchPredicate q p)
      \<and> (case fstatus f of None \<Rightarrow> True | Some s \<Rightarrow> s \<noteq> [] \<longrightarrow> status p = s)
      \<and> (case ftagIds f of None \<Rightarrow> True | Some ids \<Rightarrow> ids \<noteq> [] \<longrightarrow> set ids \<inter> set (tagIds p) \<noteq> {})
      \<and> list_all (\<lambda>(key, v). dynamicActive (key, v) \<longrightarrow> fieldValue p key = v) (fothers f))"

definition noFilterActive :: "string \<Rightarrow> people_filters \<Rightarrow> bool" where
  "noFilterActive q f =
     (q = [] \<and> \<not> truthy (fstatus f) \<and> (ftagIds f = None \<or> ftagIds f = Some [])
      \<and> list_all (\<lambda>e. \<not> dynamicActive e) (fothers f))"

definition ann :: person where
  "ann = \<lparr>pid = ''p1'', firstName = ''Ann'', lastName = ''Lee'', preferredName = None,
     email = Some ''ANN@example.com'', phone = None, status = ''active'', tagIds = [''t1'', ''t2''],
     householdId = None, pfields = [(''shirt'', JStr ''M'')]\<rparr>"

definition bob :: person where
  "bob = \<lparr>pid = ''p2'', firstName = ''Bob'', lastName = ''Hanna'', preferredName = Some ''Bobby'',
     email = None, phone = None, status = ''active'', tagIds = [''t2''],
     householdId = None, pfields = [(''shirt'', JStr ''L'')]\<rparr>"

section \<open>Field definitions: reordering\<close>

record drop_result =
  \<comment> \<open>What the drag-and-drop list reports: the position the row was taken from and, unless
      it was dropped outside the list, the position it was dropped at. Both are positions
      in the rendered list, which is \<open>activeFields\<close>.\<close>
  source_index :: nat
  destination_index :: "nat option"

definition activeFields :: "profile_field list \<Rightarrow> profile_field list" where
  "activeFields fs = filter (\<lambda>field. \<not> archived field) fs"

definition blankField :: profile_field where
  \<comment> \<open>\<open>{...undefined}\<close>: an object without attributes.\<close>
  "blankField = \<lparr>fid = None, fkey = None, flabel = None, archived = False, orderIndex = 0\<rparr>"

definition reorderItems :: "profile_field list \<Rightarrow> nat \<Rightarrow> nat \<Rightarrow> profile_field list" where
  \<comment> \<open>The two \<open>splice\<close> calls on a copy of \<open>fields\<close>, then the renumbering. Taking from
      a position past the end removes nothing and yields \<open>undefined\<close>; inserting at a
      position past the end appends.\<close>
  "reorderItems fs src dst =
     (let items = map Some fs;
          reorderedItem = (if src < length items then items ! src else None);
          items1 = take src items @ drop (Suc src) items;
          items2 = take dst items1 @ [reorderedItem] @ drop dst items1
      in map (\<lambda>(item, index).
                (case item of Some field \<Rightarrow> field | None \<Rightarrow> blankField)\<lparr>orderIndex := index + 1\<rparr>)
             (zip items2 [0 ..< length items2]))"

definition fetchFields ::
    "field_list_response outcome \<Rightarrow> profile_field list \<Rightarrow> profile_field list \<times> effect list" where
  "fetchFields resp fs =
     (case resp of
        Rejected \<Rightarrow> (fs, [Call (ListCall ProfileFieldDef), MessageError ''Failed to load profile fields''])
      | Resolved r \<Rightarrow>
          (if success r then sort_key orderIndex (fdata r) else fs, [Call (ListCall ProfileFieldDef)]))"

definition handleReorder ::
    "drop_result \<Rightarrow> bool \<Rightarrow> field_list_response outcome \<Rightarrow> profile_field list
       \<Rightarrow> profile_field list \<times> effect list" where
  \<comment> \<open>\<open>updatesResolved\<close>: whether all the update calls resolved; \<open>refetch\<close>: what the list
      call answers when the handler reverts.\<close>
  "handleReorder result updatesResolved refetch fs =
     (case destination_index result of
        None \<Rightarrow> (fs, [])
      | Some dst \<Rightarrow>
          (let updatedItems = reorderItems fs (source_index result) dst;
               calls = map (\<lambda>item. Call (UpdateCall ProfileFieldDef (fid item) (OrderIndex (orderIndex item))))
                         updatedItems
           in if updatesResolved
              then (updatedItems, calls @ [MessageSuccess ''Field order updated successfully''])
              else (case fetchFields refetch updatedItems of
                      (fs1, eff) \<Rightarrow> (fs1, calls @ [MessageError ''Failed to update field order''] @ eff))))"

definition fieldA :: profile_field where
  "fieldA = \<lparr>fid = Some ''a'', fkey = Some ''allergies'', flabel = Some ''Allergies'',
     archived = True, orderIndex = 1\<rparr>"

definition fieldB :: profile_field where
  "fieldB = \<lparr>fid = Some ''b'', fkey = Some ''birthday'', flabel = Some ''Birthday'',
     archived = False, orderIndex = 2\<rparr>"

definition fieldC :: profile_field where
  "fieldC = \<lparr>fid = Some ''c'', fkey = Some ''campus'', flabel = Some ''Campus'',
     archived = False, orderIndex = 3\<rparr>"

section \<open>Households and tags: the destructive actions\<close>

text \<open>
  The pages' own state (the lists they display) is not modelled: a handler is the trace of
  its calls and notifications. Console output is left out.
\<close>

definition fetchHouseholdData ::
    "string option \<Rightarrow> unit outcome \<Rightarrow> effect list" where
  \<comment> \<open>\<open>hid\<close> is the route parameter \<open>id\<close>, without which nothing is fetched; the three reads are issued together, and the outcome is
      that of awaiting them all.\<close>
  "fetchHouseholdData hid reads =
     (case hid of
        None \<Rightarrow> []
      | Some i \<Rightarrow>
          if i = [] then []
          else [Call (GetCall Household i), Call (ListCall HouseholdMember), Call (ListCall Person)]
               @ (case reads of
                    Rejected \<Rightarrow> [MessageError ''Failed to load household data'']
                  | Resolved u \<Rightarrow> []))"

definition handleRemoveMember ::
    "string option \<Rightarrow> string \<Rightarrow> string \<Rightarrow> unit outcome \<Rightarrow> unit outcome \<Rightarrow> effect list" where
  "handleRemoveMember hid memberId personId updated reads =
     Call (UpdateCall Person (Some personId) HouseholdIdNull)
     # (case updated of
          Rejected \<Rightarrow> [MessageError ''Failed to remove member'']
        | Resolved u \<Rightarrow> MessageSuccess ''Member removed successfully'' # fetchHouseholdData hid reads)"

definition handleUpdateRelationship ::
    "string option \<Rightarrow> string \<Rightarrow> string \<Rightarrow> unit outcome \<Rightarrow> effect list" where
  "handleUpdateRelationship hid memberId newRelationship reads =
     MessageSuccess ''Relationship updated successfully'' # fetchHouseholdData hid reads"

definition messageOr :: "response \<Rightarrow> string" where
  \<comment> \<open>\<open>response.message || 'Unknown error'\<close>\<close>
  "messageOr r =
     (case message r of
        None \<Rightarrow> ''Unknown error''
      | Some m \<Rightarrow> if m = [] then ''Unknown error'' else m)"

definition fetchTags :: "(response \<times> response) outcome \<Rightarrow> effect list" where
  "fetchTags reads =
     [Call (ListCall TagEntity), Call (ListCall Person)]
     @ (case reads of
          Rejected \<Rightarrow> [MessageError ''Failed to load tags'']
        | Resolved (tagsResponse, peopleResponse) \<Rightarrow>
            if success tagsResponse \<and> success peopleResponse then []
            else (if \<not> success tagsResponse
                  then [MessageError (''Failed to load tags: '' @ messageOr tagsResponse)] else [])
                 @ (if \<not> success peopleResponse
                    then [MessageError (''Failed to load people: '' @ messageOr peopleResponse)] else []))"

definition handleDeleteTag :: "string \<Rightarrow> nat \<Rightarrow> (response \<times> response) outcome \<Rightarrow> effect list" where
  "handleDeleteTag tagId peopleCount reads =
     (if peopleCount > 0
      then [MessageWarning ''Cannot delete tag that is in use. Remove it from all people first.'']
      else MessageSuccess ''Tag deleted successfully'' # fetchTags reads)"

section \<open>Properties of the string primitives\<close>

lemma str_includes_iff: "str_includes s sub \<longleftrightarrow> (\<exists>ps ss. s = ps @ sub @ ss)"
proof (induction s)
  case Nil show ?case by auto
next
  case (Cons c cs)
  show ?case
  proof
    assume "str_includes (c # cs) sub"
    then consider "prefix sub (c # cs)" | "str_includes cs sub" by auto
    then show "\<exists>ps ss. c # cs = ps @ sub @ ss"
    proof cases
      case 1 then obtain ss where "c # cs = sub @ ss" by (auto simp: prefix_def)
      then have "c # cs = [] @ sub @ ss" by simp
      then show ?thesis by blast
    next
      case 2 with Cons obtain ps ss where "cs = ps @ sub @ ss" by auto
      then have "c # cs = (c # ps) @ sub @ ss" by simp
      then show ?thesis by blast
    qed
  next
    assume "\<exists>ps ss. c # cs = ps @ sub @ ss"
    then obtain ps ss where e: "c # cs = ps @ sub @ ss" by auto
    show "str_includes (c # cs) sub"
    proof (cases ps)
      case Nil with e have "prefix sub (c # cs)" by (auto simp: prefix_def)
      then show ?thesis by simp
    next
      case (Cons p ps') with e have "cs = ps' @ sub @ ss" by simp
      with Cons.IH show ?thesis by auto
    qed
  qed
qed

lemma set_ownEntries: "set (ownEntries obj) = set obj"
  by (auto simp: ownEntries_def)

lemma set_ownValues: "set (ownValues obj) = snd ` set obj"
  by (simp add: ownValues_def set_ownEntries)

lemma list_all_ownEntries: "list_all P (ownEntries obj) = list_all P obj"
  by (simp add: list_all_iff set_ownEntries)

section \<open>Properties of key generation\<close>

lemma isKeyUnit_lower: "isKeyUnit c \<Longrightarrow> lowerUnit c = c"
  by (auto simp: isKeyUnit_def lowerUnit_def isUpperUnit_def Let_def)

lemma underscore_lower: "lowerUnit underscore = underscore"
  by (simp add: lowerUnit_def isUpperUnit_def underscore_def)

lemma set_collapseRuns: "set (collapseRuns s) \<subseteq> set s"
proof (induction s rule: collapseRuns.induct)
  case 1 show ?case by simp
next
  case (2 c cs)
  show ?case
  proof (cases "c = underscore")
    case True
    with 2 have "set (collapseRuns (dropWhile (\<lambda>d. d = underscore) cs)) \<subseteq> set cs"
      using set_dropWhileD by fastforce
    with True show ?thesis by auto
  next
    case False with 2 show ?thesis by auto
  qed
qed

lemma hd_collapseRuns: "s \<noteq> [] \<Longrightarrow> collapseRuns s \<noteq> [] \<and> hd (collapseRuns s) = hd s"
  by (cases s) auto

lemma noDouble_collapseRuns: "noDoubleUnderscore (collapseRuns s)"
proof (induction s rule: collapseRuns.induct)
  case 1 show ?case by simp
next
  case (2 c cs)
  show ?case
  proof (cases "c = underscore")
    case True
    let ?r = "dropWhile (\<lambda>d. d = underscore) cs"
    from True 2 have ih: "noDoubleUnderscore (collapseRuns ?r)" by simp
    show ?thesis
    proof (cases ?r)
      case Nil
      have "collapseRuns (c # cs) = underscore # collapseRuns ?r" using True by simp
      then have "collapseRuns (c # cs) = [underscore]" unfolding Nil by simp
      then show ?thesis by simp
    next
      case (Cons e es)
      then have "e \<noteq> underscore" using hd_dropWhile[of "\<lambda>d. d = underscore" cs] by auto
      moreover from Cons obtain t where t: "collapseRuns ?r = e # t"
        using hd_collapseRuns[of ?r] by (cases "collapseRuns ?r") auto
      ultimately show ?thesis using True ih by simp
    qed
  next
    case False
    from False 2 have ih: "noDoubleUnderscore (collapseRuns cs)" by simp
    with False show ?thesis by (cases "collapseRuns cs") auto
  qed
qed

lemma noDouble_tl: "noDoubleUnderscore s \<Longrightarrow> noDoubleUnderscore (tl s)"
  by (induction s rule: noDoubleUnderscore.induct) auto

lemma noDouble_butlast: "noDoubleUnderscore s \<Longrightarrow> noDoubleUnderscore (butlast s)"
  by (induction s rule: noDoubleUnderscore.induct) (auto split: if_splits)

lemma noDouble_hd_tl: "noDoubleUnderscore s \<Longrightarrow> s \<noteq> [] \<Longrightarrow> hd s = underscore \<Longrightarrow> tl s \<noteq> [] \<Longrightarrow> hd (tl s) \<noteq> underscore"
  by (induction s rule: noDoubleUnderscore.induct) auto

lemma noDouble_last_butlast: "noDoubleUnderscore s \<Longrightarrow> s \<noteq> [] \<Longrightarrow> last s = underscore \<Longrightarrow> butlast s \<noteq> [] \<Longrightarrow> last (butlast s) \<noteq> underscore"
  by (induction s rule: noDoubleUnderscore.induct) (auto split: if_splits)

lemma stripEnds_ends:
  assumes "noDoubleUnderscore s" and "stripEnds s \<noteq> []"
  shows "hd (stripEnds s) \<noteq> underscore \<and> last (stripEnds s) \<noteq> underscore"
proof -
  define s1 where "s1 = (if s \<noteq> [] \<and> hd s = underscore then tl s else s)"
  have se: "stripEnds s = (if s1 \<noteq> [] \<and> last s1 = underscore then butlast s1 else s1)"
    by (simp add: stripEnds_def s1_def Let_def)
  have nd1: "noDoubleUnderscore s1" using assms(1) by (simp add: s1_def noDouble_tl)
  have ne1: "s1 \<noteq> []" using assms(2) se by (auto split: if_splits)
  have hd1: "hd s1 \<noteq> underscore"
    using assms(1) ne1 noDouble_hd_tl[of s] by (auto simp: s1_def split: if_splits)
  show ?thesis
  proof (cases "last s1 = underscore")
    case True
    then have eq: "stripEnds s = butlast s1" using se ne1 by simp
    with assms(2) have nb: "butlast s1 \<noteq> []" by simp
    have "hd (butlast s1) = hd s1" using nb by (cases s1) (auto split: if_splits)
    moreover have "last (butlast s1) \<noteq> underscore"
      using noDouble_last_butlast[OF nd1 ne1 True nb] .
    ultimately show ?thesis using eq hd1 by simp
  next
    case False
    then have "stripEnds s = s1" using se by simp
    then show ?thesis using hd1 False by simp
  qed
qed

lemma set_stripEnds: "set (stripEnds s) \<subseteq> set s"
proof -
  have a: "set (tl t) \<subseteq> set t" for t :: string by (cases t) auto
  have b: "set (butlast t) \<subseteq> set t" for t :: string by (auto dest: in_set_butlastD)
  show ?thesis
    unfolding stripEnds_def Let_def using a[of s] b[of s] b[of "tl s"] by (auto split: if_splits)
qed

lemma noDouble_stripEnds: "noDoubleUnderscore s \<Longrightarrow> noDoubleUnderscore (stripEnds s)"
  by (simp add: stripEnds_def Let_def noDouble_tl noDouble_butlast)

lemma set_replaceNonKey: "c \<in> set (replaceNonKey s) \<Longrightarrow> keyUnit c"
  by (auto simp: replaceNonKey_def keyUnit_def)

lemma generateKey_units: "c \<in> set (generateKey label) \<Longrightarrow> keyUnit c"
  using set_stripEnds set_collapseRuns set_replaceNonKey unfolding generateKey_def by blast

lemma keyUnit_lower: "keyUnit c \<Longrightarrow> lowerUnit c = c"
  by (auto simp: keyUnit_def isKeyUnit_lower underscore_lower)

lemma noDouble_not_includes: "noDoubleUnderscore s \<Longrightarrow> \<not> str_includes s ''__''"
  by (induction s rule: noDoubleUnderscore.induct) (auto simp: underscore_def)

text \<open>
  C3. For every label the derived key is unchanged by lower-casing, consists of units of
  \<open>[a-z0-9_]\<close> only, neither starts nor ends with an underscore, and has no two
  consecutive underscores; the label \<open>Date of Birth!\<close> gives \<open>date_of_birth\<close>.
\<close>
theorem generateKey_wellformed:
  "toLowerCase (generateKey label) = generateKey label
   \<and> (\<forall>c \<in> set (generateKey label). isKeyUnit c \<or> c = underscore)
   \<and> (generateKey label \<noteq> [] \<longrightarrow>
        hd (generateKey label) \<noteq> underscore \<and> last (generateKey label) \<noteq> underscore)
   \<and> noDoubleUnderscore (generateKey label)
   \<and> \<not> str_includes (generateKey label) ''__''
   \<and> generateKey ''Date of Birth!'' = ''date_of_birth''"
proof -
  let ?k = "generateKey label"
  have nd0: "noDoubleUnderscore (collapseRuns (replaceNonKey (toLowerCase label)))"
    by (rule noDouble_collapseRuns)
  have units: "\<forall>c \<in> set ?k. isKeyUnit c \<or> c = underscore"
    using generateKey_units[of _ label] by (auto simp: keyUnit_def)
  have low: "toLowerCase ?k = ?k"
    unfolding toLowerCase_def using generateKey_units[of _ label] keyUnit_lower
    by (simp add: map_idI)
  have ends: "?k \<noteq> [] \<longrightarrow> hd ?k \<noteq> underscore \<and> last ?k \<noteq> underscore"
    unfolding generateKey_def using stripEnds_ends[OF nd0] by blast
  have nd: "noDoubleUnderscore ?k"
    unfolding generateKey_def by (rule noDouble_stripEnds[OF nd0])
  have inc: "\<not> str_includes ?k ''__''" using nd by (rule noDouble_not_includes)
  have ex: "generateKey ''Date of Birth!'' = ''date_of_birth''" by code_simp
  show ?thesis using low units ends nd inc ex by blast
qed

theorem generateKey_wellformed_witness:
  "generateKey ''__Home  Phone (2)__'' = ''home_phone_2''
   \<and> hd ''home_phone_2'' \<noteq> underscore \<and> last ''home_phone_2'' \<noteq> underscore"
proof -
  have e: "generateKey ''__Home  Phone (2)__'' = ''home_phone_2''" by code_simp
  have "''home_phone_2'' \<noteq> [] \<longrightarrow>
          hd ''home_phone_2'' \<noteq> underscore \<and> last ''home_phone_2'' \<noteq> underscore"
    using generateKey_wellformed[of "''__Home  Phone (2)__''"] unfolding e by blast
  then show ?thesis using e by simp
qed

section \<open>Properties of the CSV import\<close>

subsection \<open>Auto-mapping\<close>

lemma autoMap_fold: "autoMap headers = fold autoStep headers []"
  by (simp add: autoMap_def autoStep_def[abs_def])

lemma map_of_autoStep:
  "map_of (fold autoStep headers acc) h =
     (if h \<in> set headers \<and> autoTarget h \<noteq> None then Some (autoTarget h) else map_of acc h)"
  by (induction headers arbitrary: acc) (auto simp: autoStep_def update_conv' split: option.splits)

lemma distinct_autoStep:
  "distinct (map fst acc) \<Longrightarrow> distinct (map fst (fold autoStep headers acc))"
  by (induction headers arbitrary: acc) (auto simp: autoStep_def distinct_update split: option.splits)

lemma keys_autoStep:
  "fst ` set (fold autoStep headers acc) \<subseteq> fst ` set acc \<union> set headers"
proof (induction headers arbitrary: acc)
  case Nil show ?case by simp
next
  case (Cons h hs)
  have "fst ` set (autoStep h acc) \<subseteq> fst ` set acc \<union> {h}"
    by (auto simp: autoStep_def dom_update split: option.splits)
  with Cons[of "autoStep h acc"] show ?case by auto
qed

lemma autoTarget_firstMatch: "autoTarget header = firstMatch header"
  by (simp add: autoTarget_def firstMatch_def autoRules_def Let_def)

text \<open>
  C10. Auto-mapping gives a header at most one entry of the mapping; its target is the one
  of the first rule, in the order firstName, lastName, email, phone, status, that the
  lower-cased header matches; a header that matches no rule, and a string that is no
  header, has no entry. A header that contains both \<open>email\<close> and \<open>phone\<close> maps to
  \<open>email\<close>.
\<close>

theorem autoMap_first_match:
  "distinct (map fst (autoMap headers))
   \<and> map_of (autoMap headers) h =
        (if h \<in> set headers then map_option Some (firstMatch h) else None)
   \<and> firstMatch ''Email or Phone'' = Some ''email''
   \<and> firstMatch ''Notes'' = None"
proof -
  have d: "distinct (map fst (autoMap headers))"
    unfolding autoMap_fold by (rule distinct_autoStep) simp
  have m: "map_of (autoMap headers) h =
        (if h \<in> set headers then map_option Some (firstMatch h) else None)"
    unfolding autoMap_fold map_of_autoStep autoTarget_firstMatch
    by (cases "firstMatch h") auto
  have e1: "firstMatch ''Email or Phone'' = Some ''email''" by code_simp
  have e2: "firstMatch ''Notes'' = None" by code_simp
  show ?thesis using d m e1 e2 by blast
qed

theorem autoMap_first_match_witness:
  "map_of (autoMap [''Email or Phone'', ''Notes'', ''First Name'']) ''Email or Phone''
     = Some (Some ''email'')
   \<and> map_of (autoMap [''Email or Phone'', ''Notes'', ''First Name'']) ''Notes'' = None"
proof -
  have e1: "firstMatch ''Email or Phone'' = Some ''email''" by code_simp
  have e2: "firstMatch ''Notes'' = None" by code_simp
  show ?thesis
    using autoMap_first_match[of "[''Email or Phone'', ''Notes'', ''First Name'']" "''Email or Phone''"]
          autoMap_first_match[of "[''Email or Phone'', ''Notes'', ''First Name'']" "''Notes''"]
    by (simp add: e1 e2)
qed

subsection \<open>Parsing rows\<close>

lemma cellOr_eq: "cellOr vs i = (if i < length vs then vs ! i else [])"
  by (simp add: cellOr_def)

lemma keys_fold_write:
  "fst ` set (fold (\<lambda>(k, i) row. writeProp k (g i) row) ps acc)
     = fst ` set acc \<union> (fst ` set ps - {''__proto__''})"
proof (induction ps arbitrary: acc)
  case Nil show ?case by simp
next
  case (Cons p ps)
  obtain k i where p: "p = (k, i)" by (cases p)
  have "fst ` set (fold (\<lambda>(k, i) row. writeProp k (g i) row) ps (writeProp k (g i) acc))
          = fst ` set (writeProp k (g i) acc) \<union> (fst ` set ps - {''__proto__''})"
    by (rule Cons.IH)
  also have "\<dots> = fst ` set acc \<union> (fst ` set (p # ps) - {''__proto__''})"
    unfolding writeProp_def p by (cases "k = ''__proto__''") (auto simp: dom_update)
  finally show ?case by (simp add: p)
qed

lemma map_of_fold_write:
  "map_of (fold (\<lambda>(k, i) row. writeProp k (g i) row) ps acc)
     = map_of acc ++ map_of (rev (map (\<lambda>(k, i). (k, g i)) (filter (\<lambda>(k, i). k \<noteq> ''__proto__'') ps)))"
  by (induction ps arbitrary: acc) (auto simp: update_conv' writeProp_def)

lemma fst_zip_upt: "fst ` set (zip hs [0 ..< length hs]) = set hs"
proof -
  have "map fst (zip hs [0 ..< length hs]) = hs" by simp
  from arg_cong[OF this, of set] show ?thesis by (simp only: set_map)
qed

lemma parseRow_keys: "fst ` set (parseRow headers line) = set headers - {''__proto__''}"
  by (simp add: parseRow_def Let_def keys_fold_write fst_zip_upt)

lemma parseRow_proto: "readProp (parseRow headers line) ''__proto__'' = Inherited ''__proto__''"
proof -
  have "''__proto__'' \<notin> fst ` set (parseRow headers line)" by (simp add: parseRow_keys)
  then have "map_of (parseRow headers line) ''__proto__'' = None"
    by (simp add: map_of_eq_None_iff)
  then show ?thesis by (simp add: readProp_def objectPrototypeNames_def)
qed

lemma parseRow_lookup:
  assumes "h \<in> set headers" and "h \<noteq> ''__proto__''"
  shows "\<exists>i < length headers. headers ! i = h
           \<and> readProp (parseRow headers line) h = Str (cellOr (cells line) i)"
proof -
  let ?g = "cellOr (cells line)"
  let ?ps = "filter (\<lambda>(k, i). k \<noteq> ''__proto__'') (zip headers [0 ..< length headers])"
  let ?xs = "map (\<lambda>(k, i). (k, ?g i)) ?ps"
  have m: "map_of (parseRow headers line) = map_of (rev ?xs)"
    by (simp add: parseRow_def Let_def map_of_fold_write)
  from assms have "h \<in> fst ` set (parseRow headers line)" by (simp add: parseRow_keys)
  then obtain v where v: "map_of (parseRow headers line) h = Some v"
    by (metis domD dom_map_of_conv_image_fst)
  then have "(h, v) \<in> set ?xs" unfolding m using map_of_SomeD by fastforce
  then obtain i where i: "(h, i) \<in> set (zip headers [0 ..< length headers])" and vi: "v = ?g i"
    by auto
  from i have "i < length headers \<and> headers ! i = h"
    by (auto simp: set_zip)
  with v vi show ?thesis by (auto simp: readProp_def)
qed

subsection \<open>Validation where no check raises\<close>

lemma fold_push:
  "fold (\<lambda>x errors. if P x then errors @ [f x] else errors) xs acc = acc @ map f (filter P xs)"
  by (induction xs arbitrary: acc) auto

lemma requiredErrors_eq:
  "requiredErrors m =
     map (\<lambda>field. requiredMessage (clabel field))
       (filter (\<lambda>field. Some (ckey field) \<notin> set (filter truthy (ownValues m)))
          (filter crequired coreFields))"
  by (simp add: requiredErrors_def Let_def fold_push)

lemma validateEntries_eq:
  assumes "list_all (entryReadable row) entries"
  shows "validateEntries index row entries errors
           = Inr (errors @ concat (map (entryErrors index row) entries))"
  using assms
proof (induction entries arbitrary: errors)
  case Nil show ?case by simp
next
  case (Cons e entries)
  obtain col t where e: "e = (col, t)" by (cases e)
  from Cons.prems have rest: "list_all (entryReadable row) entries"
    and here: "entryReadable row (col, t)" by (simp_all add: e)
  show ?case
  proof (cases "truthy t")
    case False
    then have "entryErrors index row e = []"
      by (auto simp: entryErrors_def e truthy_def split: option.splits jsread.splits)
    with False Cons.IH[OF rest] show ?thesis by (simp add: e)
  next
    case True
    show ?thesis
      using True here Cons.IH[OF rest]
      by (cases "readProp row col")
         (auto simp: e statusCheck_def emailCheck_def entryErrors_def entryReadable_def)
  qed
qed

lemma validateRows_eq:
  assumes "list_all (\<lambda>row. list_all (entryReadable row) entries) rows"
  shows "validateRows index rows entries errors
           = Inr (errors @ concat (map (rowErrors entries) (zip [index ..< index + length rows] rows)))"
  using assms
proof (induction rows arbitrary: index errors)
  case Nil show ?case by simp
next
  case (Cons row rows)
  have a: "validateEntries index row entries errors
             = Inr (errors @ concat (map (entryErrors index row) entries))"
    using Cons.prems by (intro validateEntries_eq) simp
  have b: "validateRows (Suc index) rows entries errs
             = Inr (errs @ concat (map (rowErrors entries) (zip [Suc index ..< Suc index + length rows] rows)))"
    for errs using Cons.prems by (intro Cons.IH) simp
  have c: "[index ..< index + length (row # rows)] = index # [Suc index ..< Suc index + length rows]"
    by (simp add: upt_rec)
  show ?case unfolding c by (simp add: a b rowErrors_def)
qed



subsection \<open>The collected errors\<close>

lemma coreKey_nonempty: "f \<in> set coreFields \<Longrightarrow> ckey f \<noteq> []"
  by (auto simp: coreFields_def)

lemma mapped_iff:
  "k \<noteq> [] \<Longrightarrow> Some k \<in> set (filter truthy (ownValues m)) \<longleftrightarrow> (\<exists>col. (col, Some k) \<in> set m)"
  by (force simp: set_ownValues truthy_def image_iff)

lemma requiredErrors_member:
  "msg \<in> set (requiredErrors m) \<longleftrightarrow>
     (\<exists>f \<in> set coreFields. crequired f \<and> (\<forall>col. (col, Some (ckey f)) \<notin> set m)
        \<and> msg = requiredMessage (clabel f))"
proof -
  have "msg \<in> set (requiredErrors m) \<longleftrightarrow>
     (\<exists>f \<in> set coreFields. crequired f \<and> Some (ckey f) \<notin> set (filter truthy (ownValues m))
        \<and> msg = requiredMessage (clabel f))"
    unfolding requiredErrors_eq by auto
  also have "\<dots> \<longleftrightarrow> (\<exists>f \<in> set coreFields. crequired f \<and> (\<forall>col. (col, Some (ckey f)) \<notin> set m)
        \<and> msg = requiredMessage (clabel f))"
    using mapped_iff[OF coreKey_nonempty] by blast
  finally show ?thesis .
qed

lemma entryErrors_member:
  "msg \<in> set (entryErrors i row (col, t)) \<longleftrightarrow>
     (\<exists>s. readProp row col = Str s
        \<and> ((t = Some ''status'' \<and> toLowerCase s \<notin> {''active'', ''inactive'', ''visitor''}
             \<and> msg = statusMessage (i + 1) s)
           \<or> (t = Some ''email'' \<and> s \<noteq> [] \<and> \<not> str_includes s ''@''
             \<and> msg = emailMessage (i + 1) s)))"
  by (cases "readProp row col") (auto simp: entryErrors_def)

lemma rowsErrors_member:
  "msg \<in> set (concat (map (rowErrors entries) (zip [0 ..< 0 + length rows] rows))) \<longleftrightarrow>
     (\<exists>i < length rows. \<exists>e \<in> set entries. msg \<in> set (entryErrors i (rows ! i) e))"
proof -
  have z: "set (zip [0 ..< length rows] rows) = {(i, rows ! i) | i. i < length rows}"
    by (force simp: set_zip)
  show ?thesis by (simp add: z rowErrors_def)
qed

lemma statusMessage_mentions:
  "str_includes (statusMessage n s) (show_nat n) \<and> str_includes (statusMessage n s) s"
proof
  have "statusMessage n s = ''Row '' @ show_nat n
          @ ('': Invalid status '' @ [dquote] @ s @ [dquote] @ ''. Must be active, inactive, or visitor'')"
    by (simp add: statusMessage_def)
  then show "str_includes (statusMessage n s) (show_nat n)"
    unfolding str_includes_iff by blast
  have "statusMessage n s = (''Row '' @ show_nat n @ '': Invalid status '' @ [dquote]) @ s
          @ ([dquote] @ ''. Must be active, inactive, or visitor'')"
    by (simp add: statusMessage_def)
  then show "str_includes (statusMessage n s) s"
    unfolding str_includes_iff by blast
qed

lemma validationResult_eq:
  assumes "columnsReadable st"
  shows "validationResult st =
     Inr (requiredErrors (mapping st)
          @ concat (map (rowErrors (ownEntries (mapping st)))
                      (zip [0 ..< 0 + length (take 5 (csvData st))] (take 5 (csvData st)))))"
proof -
  have "list_all (\<lambda>row. list_all (entryReadable row) (ownEntries (mapping st))) (take 5 (csvData st))"
    using assms by (simp add: columnsReadable_def list_all_ownEntries)
  from validateRows_eq[OF this] show ?thesis by (simp add: validationResult_def)
qed


text \<open>
  Where every examined row reads a string under the columns that the checks use, the
  error list is the one of the specification.
\<close>

lemma validation_errors_when_readable:
  assumes "columnsReadable st"
  shows "\<exists>errors. validationResult st = Inr errors
     \<and> (\<forall>msg. msg \<in> set errors \<longleftrightarrow>
          (\<exists>f \<in> set coreFields. crequired f \<and> (\<forall>col. (col, Some (ckey f)) \<notin> set (mapping st))
              \<and> msg = requiredMessage (clabel f))
          \<or> (\<exists>i col s. i < 5 \<and> i < length (csvData st)
              \<and> (col, Some ''status'') \<in> set (mapping st)
              \<and> readProp (csvData st ! i) col = Str s
              \<and> toLowerCase s \<notin> {''active'', ''inactive'', ''visitor''}
              \<and> msg = statusMessage (i + 1) s)
          \<or> (\<exists>i col s. i < 5 \<and> i < length (csvData st)
              \<and> (col, Some ''email'') \<in> set (mapping st)
              \<and> readProp (csvData st ! i) col = Str s
              \<and> s \<noteq> [] \<and> \<not> str_includes s ''@''
              \<and> msg = emailMessage (i + 1) s))
     \<and> (\<forall>n s. str_includes (statusMessage n s) (show_nat n) \<and> str_includes (statusMessage n s) s)
     \<and> validationResult (st\<lparr>csvData := take 5 (csvData st)\<rparr>) = Inr errors
     \<and> (errors \<noteq> [] \<longrightarrow>
          (\<forall>create w. handleImport create st w
             = Inr (st\<lparr>validationErrors := errors\<rparr>,
                    [MessageError ''Please fix validation errors before importing''], w)))
     \<and> (currentStep st = 1 \<longrightarrow>
          (\<exists>st'. clickNext st = Inr st' \<and> currentStep st' = 2 \<and> validationErrors st' = errors
             \<and> (importDisabled st' \<longleftrightarrow> errors \<noteq> [])))"
proof -
  let ?rows = "take 5 (csvData st)"
  let ?errors = "requiredErrors (mapping st)
          @ concat (map (rowErrors (ownEntries (mapping st))) (zip [0 ..< 0 + length ?rows] ?rows))"
  have res: "validationResult st = Inr ?errors" by (rule validationResult_eq[OF assms])
  have idx: "(i < length ?rows) = (i < 5 \<and> i < length (csvData st))" for i by auto
  have mem: "msg \<in> set ?errors \<longleftrightarrow>
          (\<exists>f \<in> set coreFields. crequired f \<and> (\<forall>col. (col, Some (ckey f)) \<notin> set (mapping st))
              \<and> msg = requiredMessage (clabel f))
          \<or> (\<exists>i col s. i < 5 \<and> i < length (csvData st)
              \<and> (col, Some ''status'') \<in> set (mapping st)
              \<and> readProp (csvData st ! i) col = Str s
              \<and> toLowerCase s \<notin> {''active'', ''inactive'', ''visitor''}
              \<and> msg = statusMessage (i + 1) s)
          \<or> (\<exists>i col s. i < 5 \<and> i < length (csvData st)
              \<and> (col, Some ''email'') \<in> set (mapping st)
              \<and> readProp (csvData st ! i) col = Str s
              \<and> s \<noteq> [] \<and> \<not> str_includes s ''@''
              \<and> msg = emailMessage (i + 1) s)" (is "?L \<longleftrightarrow> ?R1 \<or> ?R2 \<or> ?R3") for msg
  proof -
    have rowpart: "msg \<in> set (concat (map (rowErrors (ownEntries (mapping st)))
                      (zip [0 ..< 0 + length ?rows] ?rows))) \<longleftrightarrow> ?R2 \<or> ?R3" (is "?M \<longleftrightarrow> _")
    proof
      assume ?M
      then obtain i col t where i: "i < length ?rows" and e: "(col, t) \<in> set (mapping st)"
        and m: "msg \<in> set (entryErrors i (?rows ! i) (col, t))"
        unfolding rowsErrors_member set_ownEntries by auto
      from i have i5: "i < 5" "i < length (csvData st)" and nth: "?rows ! i = csvData st ! i" by auto
      from m[unfolded entryErrors_member nth] e i5 show "?R2 \<or> ?R3" by blast
    next
      assume r: "?R2 \<or> ?R3"
      then obtain i col t s where i5: "i < 5" "i < length (csvData st)"
        and e: "(col, t) \<in> set (mapping st)" and v: "readProp (csvData st ! i) col = Str s"
        and c: "(t = Some ''status'' \<and> toLowerCase s \<notin> {''active'', ''inactive'', ''visitor''}
                  \<and> msg = statusMessage (i + 1) s)
                \<or> (t = Some ''email'' \<and> s \<noteq> [] \<and> \<not> str_includes s ''@''
                  \<and> msg = emailMessage (i + 1) s)"
        by blast
      from i5 have i: "i < length ?rows" and nth: "?rows ! i = csvData st ! i" by auto
      have "msg \<in> set (entryErrors i (?rows ! i) (col, t))"
        unfolding entryErrors_member nth using v c by blast
      with i e show ?M unfolding rowsErrors_member set_ownEntries by blast
    qed
    show ?thesis using rowpart requiredErrors_member[of msg "mapping st"] by auto
  qed
  have five: "validationResult (st\<lparr>csvData := take 5 (csvData st)\<rparr>) = Inr ?errors"
    using res by (simp add: validationResult_def)
  have blocked: "?errors \<noteq> [] \<longrightarrow>
          (\<forall>create w. handleImport create st w
             = Inr (st\<lparr>validationErrors := ?errors\<rparr>,
                    [MessageError ''Please fix validation errors before importing''], w))"
    by (simp add: handleImport_def validateMapping_def res)
  have button: "currentStep st = 1 \<longrightarrow>
          (\<exists>st'. clickNext st = Inr st' \<and> currentStep st' = 2 \<and> validationErrors st' = ?errors
             \<and> (importDisabled st' \<longleftrightarrow> ?errors \<noteq> []))"
    by (simp add: clickNext_def validateMapping_def res importDisabled_def)
  show ?thesis
    using res mem statusMessage_mentions five blocked button by blast
qed

lemma upload_state:
  assumes "2 \<le> length (fileLines text)"
  shows "csvHeaders (fst (handleFileUpload (Resolved text) fr st)) = cells (hd (fileLines text))"
    and "csvData (fst (handleFileUpload (Resolved text) fr st))
           = map (parseRow (cells (hd (fileLines text)))) (tl (fileLines text))"
    and "mapping (fst (handleFileUpload (Resolved text) (Resolved r) st))
           = autoMap (cells (hd (fileLines text)))"
  using assms by (auto simp: handleFileUpload_def Let_def split: outcome.splits)


subsection \<open>The import loop\<close>

lemma importRows_eq:
  "\<exists>w'. importRows create m rows (s, e, trace, w)
     = (s + length (filter id (createOutcomes create (map (buildPerson m) rows) w)),
        e + length (filter Not (createOutcomes create (map (buildPerson m) rows) w)),
        trace @ map (\<lambda>row. createCall (buildPerson m row)) rows,
        w')"
proof (induction rows arbitrary: s e trace w)
  case Nil show ?case by simp
next
  case (Cons row rows)
  obtain ok w1 where c: "create (buildPerson m row) w = (ok, w1)" by (cases "create (buildPerson m row) w")
  show ?case
  proof (cases ok)
    case True
    from Cons[of "s + 1" e "trace @ [createCall (buildPerson m row)]" w1]
    show ?thesis using c True by (simp add: createCall_def)
  next
    case False
    from Cons[of s "e + 1" "trace @ [createCall (buildPerson m row)]" w1]
    show ?thesis using c False by (simp add: createCall_def)
  qed
qed


lemma filter_isMutating_creates:
  "filter isMutating (map (\<lambda>row. createCall (f row)) rows @ [MessageSuccess s, OnSuccess, OnClose])
     = map (\<lambda>row. createCall (f row)) rows"
  by (induction rows) (auto simp: createCall_def)

lemma handleImport_passes:
  assumes "validationResult st = Inr []"
  shows "\<exists>st' w'. handleImport create st w
     = Inr (st',
            map (\<lambda>row. createCall (buildPerson (mapping st) row)) (csvData st)
              @ [MessageSuccess
                   (completedMessage
                      (length (filter id (createOutcomes create (map (buildPerson (mapping st)) (csvData st)) w)))
                      (length (filter Not (createOutcomes create (map (buildPerson (mapping st)) (csvData st)) w)))),
                 OnSuccess, OnClose],
            w')"
proof -
  from importRows_eq[of create "mapping st" "csvData st" 0 0 "[]" w]
  obtain w' where "importRows create (mapping st) (csvData st) (0, 0, [], w)
     = (0 + length (filter id (createOutcomes create (map (buildPerson (mapping st)) (csvData st)) w)),
        0 + length (filter Not (createOutcomes create (map (buildPerson (mapping st)) (csvData st)) w)),
        [] @ map (\<lambda>row. createCall (buildPerson (mapping st) row)) (csvData st), w')"
    by blast
  then show ?thesis using assms by (simp add: handleImport_def validateMapping_def)
qed

subsection \<open>Where a mapped target goes\<close>

lemma isCoreKey_nonempty: "isCoreKey t \<Longrightarrow> t \<noteq> []"
  by (auto simp: isCoreKey_def coreFields_def)


lemma isCoreKey_write: "isCoreKey t \<Longrightarrow> writeProp t v obj = AList.update t v obj"
  by (auto simp: isCoreKey_def coreFields_def writeProp_def)

lemma assignTarget_attrs:
  "attrs (assignTarget row (col, tf) acc)
     = (case tf of
          None \<Rightarrow> attrs acc
        | Some t \<Rightarrow> if isCoreKey t then AList.update t (readProp row col) (attrs acc) else attrs acc)"
  by (auto simp: assignTarget_def isCoreKey_nonempty isCoreKey_write split: option.splits)




lemma fold_attrs_value:
  "map_of (attrs (fold (assignTarget row) es acc)) t = Some v \<Longrightarrow>
     map_of (attrs acc) t = Some v
     \<or> (\<exists>col. (col, Some t) \<in> set es \<and> v = readProp row col)"
proof (induction es arbitrary: acc)
  case Nil then show ?case by simp
next
  case (Cons e es)
  obtain col tf where e: "e = (col, tf)" by (cases e)
  from Cons.prems have "map_of (attrs (fold (assignTarget row) es (assignTarget row (col, tf) acc))) t = Some v"
    by (simp add: e)
  from Cons.IH[OF this] consider
      (old) "map_of (attrs (assignTarget row (col, tf) acc)) t = Some v"
    | (new) "\<exists>col. (col, Some t) \<in> set es \<and> v = readProp row col" by blast
  then show ?case
  proof cases
    case old
    then show ?thesis unfolding assignTarget_attrs e
      by (cases tf) (auto simp: update_conv' split: if_splits)
  next
    case new then show ?thesis by (auto simp: e)
  qed
qed









text \<open>
  C1. For the file with the header row \<open>First Name,Last Name,Email,Phone,Status\<close> and
  the one data row \<open>John,Doe,john@example.com,(555) 123-4567,active\<close>, a completed upload
  maps the five headers to firstName, lastName, email, phone and status; validation returns
  the empty error list; and the import issues exactly one create call. Its payload has the
  attributes status, firstName, lastName, email and phone with the values of the row (listed
  here in the order in which the handler sets them; the order of keys is immaterial in an
  object) and an empty \<open>fields\<close> object.
\<close>

theorem sample_csv_round_trip:
  "mapping (fst (handleFileUpload (Resolved sampleCsv) (Resolved r) st))
     = [(''First Name'', Some ''firstName''), (''Last Name'', Some ''lastName''),
        (''Email'', Some ''email''), (''Phone'', Some ''phone''), (''Status'', Some ''status'')]
   \<and> validationResult (fst (handleFileUpload (Resolved sampleCsv) (Resolved r) st)) = Inr []
   \<and> (\<exists>st' trace w'.
         handleImport create (fst (handleFileUpload (Resolved sampleCsv) (Resolved r) st)) w
           = Inr (st', trace, w')
         \<and> filter isMutating trace
           = [Call (CreateCall Person (PersonData
                \<lparr>attrs = [(''status'', Str ''active''), (''firstName'', Str ''John''),
                           (''lastName'', Str ''Doe''), (''email'', Str ''john@example.com''),
                           (''phone'', Str ''(555) 123-4567'')],
                 dynFields = []\<rparr>))])"
proof -
  let ?S = "fst (handleFileUpload (Resolved sampleCsv) (Resolved r) st)"
  let ?M = "[(''First Name'', Some ''firstName''), (''Last Name'', Some ''lastName''),
        (''Email'', Some ''email''), (''Phone'', Some ''phone''), (''Status'', Some ''status'')]"
  let ?D = "[[(''First Name'', ''John''), (''Last Name'', ''Doe''), (''Email'', ''john@example.com''),
        (''Phone'', ''(555) 123-4567''), (''Status'', ''active'')]]"
  have l: "2 \<le> length (fileLines sampleCsv)" by code_simp
  have "autoMap (cells (hd (fileLines sampleCsv))) = ?M" by code_simp
  then have m: "mapping ?S = ?M" using upload_state(3)[OF l] by simp
  have "map (parseRow (cells (hd (fileLines sampleCsv)))) (tl (fileLines sampleCsv)) = ?D"
    by code_simp
  then have d: "csvData ?S = ?D" using upload_state(2)[OF l] by simp
  have "validateRows 0 (take 5 ?D) (ownEntries ?M) (requiredErrors ?M) = Inr []" by code_simp
  then have v: "validationResult ?S = Inr []" by (simp add: validationResult_def m d)
  have calls: "map (\<lambda>row. createCall (buildPerson ?M row)) ?D
     = [Call (CreateCall Person (PersonData
                \<lparr>attrs = [(''status'', Str ''active''), (''firstName'', Str ''John''),
                           (''lastName'', Str ''Doe''), (''email'', Str ''john@example.com''),
                           (''phone'', Str ''(555) 123-4567'')],
                 dynFields = []\<rparr>))]"
    by code_simp
  from handleImport_passes[OF v, of create w] obtain st' w' s where
    h: "handleImport create ?S w
          = Inr (st', map (\<lambda>row. createCall (buildPerson (mapping ?S) row)) (csvData ?S)
                        @ [MessageSuccess s, OnSuccess, OnClose], w')"
    by blast
  let ?trace = "map (\<lambda>row. createCall (buildPerson (mapping ?S) row)) (csvData ?S)
                        @ [MessageSuccess s, OnSuccess, OnClose]"
  have f: "filter isMutating ?trace
           = [Call (CreateCall Person (PersonData
                \<lparr>attrs = [(''status'', Str ''active''), (''firstName'', Str ''John''),
                           (''lastName'', Str ''Doe''), (''email'', Str ''john@example.com''),
                           (''phone'', Str ''(555) 123-4567'')],
                 dynFields = []\<rparr>))]"
    unfolding filter_isMutating_creates m d by (rule calls)
  have "handleImport create ?S w = Inr (st', ?trace, w')
         \<and> filter isMutating ?trace
           = [Call (CreateCall Person (PersonData
                \<lparr>attrs = [(''status'', Str ''active''), (''firstName'', Str ''John''),
                           (''lastName'', Str ''Doe''), (''email'', Str ''john@example.com''),
                           (''phone'', Str ''(555) 123-4567'')],
                 dynFields = []\<rparr>))]"
    by (rule conjI[OF h f])
  then have e: "\<exists>st' trace w'.
         handleImport create ?S w = Inr (st', trace, w')
         \<and> filter isMutating trace
           = [Call (CreateCall Person (PersonData
                \<lparr>attrs = [(''status'', Str ''active''), (''firstName'', Str ''John''),
                           (''lastName'', Str ''Doe''), (''email'', Str ''john@example.com''),
                           (''phone'', Str ''(555) 123-4567'')],
                 dynFields = []\<rparr>))]"
    by - (rule exI)+
  show ?thesis by (rule conjI[OF m conjI[OF v e]])
qed


text \<open>
  C4. Validation is to collect a message for every examined row whose value under a column
  mapped to the status is not a valid status. In the state that a failed second upload
  leaves, the mapping still names the column \<open>Status\<close> of the first file and the row of
  the second file has no such property: the status check calls \<open>toLowerCase\<close> on
  \<open>undefined\<close> and validation raises instead of returning a list, as does the Next
  button, which leaves the error list empty. The email check of the same loop guards
  \<open>undefined\<close>: with the column mapped to the email instead, validation returns. It has
  no guard against an inherited member: in the second state the column \<open>constructor\<close>
  reads a function and the email check raises.
\<close>

theorem validation_raises_on_stale_mapping:
  "csvHeaders staleState = [''First Name'', ''Last Name'', ''Member Type'']
   \<and> mapping staleState
       = [(''First Name'', Some ''firstName''), (''Last Name'', Some ''lastName''),
          (''Status'', Some ''status'')]
   \<and> currentStep staleState = 1
   \<and> readProp (csvData staleState ! 0) ''Status'' = Undefined
   \<and> validationResult staleState = Inl TypeError
   \<and> clickNext staleState = Inl TypeError
   \<and> validationErrors staleState = []
   \<and> validationResult (chooseTarget ''Status'' (Some ''email'') staleState)
       = Inr [requiredMessage ''Status'']
   \<and> mapping staleEmailState = [(''constructor'', Some ''email'')]
   \<and> readProp (csvData staleEmailState ! 0) ''constructor'' = Inherited ''constructor''
   \<and> validationResult staleEmailState = Inl TypeError"
  by code_simp

text \<open>
  C9. Every stored row is to have a string under every header, so that no later read is
  \<open>undefined\<close>. A header \<open>__proto__\<close> is not stored: the row reads the prototype
  under it, and validation raises once the column is mapped to the email. After a second
  upload whose list call rejects, the mapping of the first file is kept: the column
  \<open>Last Name\<close> is no header of the stored file, the row reads \<open>undefined\<close> under it,
  validation passes, and the import sends a person whose last name is \<open>undefined\<close>.
\<close>

theorem upload_leaves_reads_that_are_no_string:
  "csvHeaders protoState = [''Name'', ''__proto__'', ''Status'']
   \<and> csvData protoState = [[(''Name'', ''Ann''), (''Status'', ''active'')]]
   \<and> readProp (csvData protoState ! 0) ''__proto__'' = Inherited ''__proto__''
   \<and> validationResult (chooseTarget ''__proto__'' (Some ''email'') protoState) = Inl TypeError
   \<and> csvHeaders surnameState = [''First Name'', ''Surname'', ''Status'']
   \<and> mapping surnameState
       = [(''First Name'', Some ''firstName''), (''Last Name'', Some ''lastName''),
          (''Status'', Some ''status'')]
   \<and> readProp (csvData surnameState ! 0) ''Last Name'' = Undefined
   \<and> validationResult surnameState = Inr []
   \<and> filter isMutating (importTrace acceptAll surnameState ())
       = [createCall \<lparr>attrs = [(''status'', Str ''active''), (''firstName'', Str ''John''),
                               (''lastName'', Undefined)], dynFields = []\<rparr>]"
  by code_simp

section \<open>Properties of the CSV export\<close>

lemma str_includes_unit: "str_includes v [c] \<longleftrightarrow> c \<in> set v"
  by (induction v) auto

lemma doubleQuotes_eq: "doubleQuotes v = quotesDoubled v"
  by (induction v) (auto simp: doubleQuotes_def)

lemma quotesDoubled_id: "dquote \<notin> set v \<Longrightarrow> quotesDoubled v = v"
  by (induction v) auto

text \<open>
  C2. A cell value that contains a comma or a double quote is emitted between double
  quotes, with every double quote of the value doubled; any other value is emitted as it
  is. The value \<open>Smith, Jr.\<close> is emitted between double quotes, comma kept, nothing
  doubled.
\<close>

theorem exportCell_quoting:
  "(CHR '','' \<in> set v \<or> dquote \<in> set v \<longrightarrow>
       exportCell v = [dquote] @ quotesDoubled v @ [dquote])
   \<and> (CHR '','' \<notin> set v \<and> dquote \<notin> set v \<longrightarrow> exportCell v = v)
   \<and> exportCell ''Smith, Jr.'' = [dquote] @ ''Smith, Jr.'' @ [dquote]"
proof -
  have a: "str_includes v '','' \<longleftrightarrow> CHR '','' \<in> set v" by (rule str_includes_unit)
  have b: "str_includes v [dquote] \<longleftrightarrow> dquote \<in> set v" by (rule str_includes_unit)
  have e: "exportCell ''Smith, Jr.'' = [dquote] @ ''Smith, Jr.'' @ [dquote]" by code_simp
  show ?thesis using e by (simp add: exportCell_def a b doubleQuotes_eq)
qed

theorem exportCell_quoting_witness:
  "exportCell (''6'' @ [dquote] @ '' nails'') = [dquote] @ ''6'' @ [dquote, dquote] @ '' nails'' @ [dquote]
   \<and> exportCell ''Smith'' = ''Smith''"
proof -
  have q: "dquote \<in> set (''6'' @ [dquote] @ '' nails'')" by simp
  have n: "CHR '','' \<notin> set ''Smith'' \<and> dquote \<notin> set ''Smith''" by (simp add: dquote_def)
  have d: "quotesDoubled (''6'' @ [dquote] @ '' nails'') = ''6'' @ [dquote, dquote] @ '' nails''"
    by (simp add: dquote_def)
  from exportCell_quoting[of "''6'' @ [dquote] @ '' nails''"] q
  have 1: "exportCell (''6'' @ [dquote] @ '' nails'') = [dquote] @ quotesDoubled (''6'' @ [dquote] @ '' nails'') @ [dquote]"
    by blast
  from exportCell_quoting[of "''Smith''"] n have 2: "exportCell ''Smith'' = ''Smith''" by blast
  show ?thesis using 1 2 unfolding d by simp
qed

section \<open>Properties of the people filter\<close>

lemma matchesSearch_eq: "matchesSearch p (toLowerCase q) = searchPredicate q p"
  by (auto simp: matchesSearch_def searchPredicate_def searchable_def optIncludes_def
           split: option.splits)

lemma dynamicFiltersPass_eq:
  "dynamicFiltersPass p es = list_all (\<lambda>(key, v). dynamicActive (key, v) \<longrightarrow> fieldValue p key = v) es"
  by (induction es) (auto simp: dynamicActive_def split: if_splits)

lemma personPasses_eq: "personPasses q f p = satisfiesAll q f p"
proof -
  have s: "(truthy (fstatus f) \<and> Some (status p) \<noteq> fstatus f)
             = (\<not> (case fstatus f of None \<Rightarrow> True | Some s \<Rightarrow> s \<noteq> [] \<longrightarrow> status p = s))"
    by (auto simp: truthy_def split: option.splits)
  have t: "(case ftagIds f of None \<Rightarrow> False
             | Some ids \<Rightarrow> length ids > 0 \<and> \<not> list_ex (\<lambda>tagId. tagId \<in> set (tagIds p)) ids)
             = (\<not> (case ftagIds f of None \<Rightarrow> True
                    | Some ids \<Rightarrow> ids \<noteq> [] \<longrightarrow> set ids \<inter> set (tagIds p) \<noteq> {}))"
    by (auto simp: list_ex_iff split: option.splits)
  show ?thesis
    unfolding personPasses_def satisfiesAll_def s t matchesSearch_eq dynamicFiltersPass_eq
      list_all_ownEntries
    by auto
qed

lemma noFilterActive_satisfies: "noFilterActive q f \<Longrightarrow> satisfiesAll q f p"
  by (auto simp: noFilterActive_def satisfiesAll_def truthy_def list_all_iff split: option.splits)

text \<open>
  C7. The filtered list is the fetched collection, in its order, restricted to the people
  who satisfy every active predicate: the search text, lower-cased, occurs in the
  lower-cased first name, last name, preferred name, email or phone; the status equals the
  status filter; the person has one of the selected tags; and every active dynamic-field
  filter strictly equals the person's value of that field. With no active filter the list
  is the whole collection.
\<close>

theorem filteredPeople_all_active_predicates:
  "filteredPeople q f people = filter (satisfiesAll q f) people
   \<and> (p \<in> set (filteredPeople q f people) \<longleftrightarrow> p \<in> set people \<and> satisfiesAll q f p)
   \<and> (noFilterActive q f \<longrightarrow> filteredPeople q f people = people)"
proof -
  have a: "filteredPeople q f people = filter (satisfiesAll q f) people"
    by (simp add: filteredPeople_def personPasses_eq[abs_def])
  have c: "noFilterActive q f \<longrightarrow> filteredPeople q f people = people"
    unfolding a by (simp add: noFilterActive_satisfies)
  show ?thesis using a c by auto
qed

theorem filteredPeople_all_active_predicates_witness:
  "filter (satisfiesAll ''AN'' \<lparr>fstatus = Some ''active'', ftagIds = Some [''t1''],
                                  fothers = [(''shirt'', JStr ''M'')]\<rparr>) [ann, bob] = [ann]
   \<and> noFilterActive [] \<lparr>fstatus = None, ftagIds = Some [], fothers = [(''shirt'', JStr [])]\<rparr>
   \<and> filteredPeople [] \<lparr>fstatus = None, ftagIds = Some [], fothers = [(''shirt'', JStr [])]\<rparr> [ann, bob]
       = [ann, bob]"
proof -
  let ?f = "\<lparr>fstatus = Some ''active'', ftagIds = Some [''t1''], fothers = [(''shirt'', JStr ''M'')]\<rparr>"
  let ?g = "\<lparr>fstatus = None, ftagIds = Some [], fothers = [(''shirt'', JStr [])]\<rparr>"
  have e: "filteredPeople ''AN'' ?f [ann, bob] = [ann]" by code_simp
  have n: "noFilterActive [] ?g" by code_simp
  from filteredPeople_all_active_predicates[of "''AN''" ?f "[ann, bob]"] e
  have 1: "filter (satisfiesAll ''AN'' ?f) [ann, bob] = [ann]" by simp
  from filteredPeople_all_active_predicates[of "[]" ?g "[ann, bob]"] n
  have 2: "filteredPeople [] ?g [ann, bob] = [ann, bob]" by blast
  show ?thesis by (rule conjI[OF 1 conjI[OF n 2]])
qed

section \<open>Properties of reordering\<close>

lemma renumber_indices:
  "map orderIndex (map (\<lambda>(item, index). (h item)\<lparr>orderIndex := index + 1\<rparr>) (zip xs [0 ..< length xs]))
     = [1 ..< Suc (length xs)]"
proof -
  have "map orderIndex (map (\<lambda>(item, index). (h item)\<lparr>orderIndex := index + 1\<rparr>) (zip xs [0 ..< length xs]))
          = map Suc (map snd (zip xs [0 ..< length xs]))"
    by (simp only: map_map comp_def case_prod_unfold) simp
  also have "map snd (zip xs [0 ..< length xs]) = [0 ..< length xs]"
    by (simp del: upt_Suc)
  also have "map Suc [0 ..< length xs] = [1 ..< Suc (length xs)]"
    using map_Suc_upt[of 0 "length xs"] by simp
  finally show ?thesis .
qed

lemma reorderItems_numbering:
  assumes "src < length fs"
  shows "map orderIndex (reorderItems fs src dst) = [1 ..< Suc (length fs)]"
proof -
  define items1 where "items1 = take src (map Some fs) @ drop (Suc src) (map Some fs)"
  define item where "item = (if src < length (map Some fs) then map Some fs ! src else None)"
  define items2 where "items2 = take dst items1 @ [item] @ drop dst items1"
  have l1: "length items1 = length fs - 1" using assms by (auto simp: items1_def)
  have "length items2 = Suc (length items1)" by (simp add: items2_def min_def)
  with l1 assms have l2: "length items2 = length fs" by simp
  have "reorderItems fs src dst
          = map (\<lambda>(item, index).
                   (case item of Some field \<Rightarrow> field | None \<Rightarrow> blankField)\<lparr>orderIndex := index + 1\<rparr>)
                (zip items2 [0 ..< length items2])"
    unfolding reorderItems_def Let_def items2_def item_def items1_def ..
  then show ?thesis
    using renumber_indices[of "\<lambda>item. case item of Some field \<Rightarrow> field | None \<Rightarrow> blankField" items2]
    by (simp only: l2)
qed

text \<open>
  C6. The handler renumbers the whole list \<open>fields\<close>, archived definitions included,
  while the positions it is given are positions in the list of active definitions. With the
  archived definition A before the active B and C, dragging B below C takes A out of the
  list and puts it back between B and C: B and C keep their order and receive the order
  indexes 1 and 3.
\<close>

theorem handleReorder_counts_archived_fields:
  "activeFields [fieldA, fieldB, fieldC] = [fieldB, fieldC]
   \<and> fst (handleReorder \<lparr>source_index = 0, destination_index = Some 1\<rparr> True Rejected
            [fieldA, fieldB, fieldC])
       = [fieldB\<lparr>orderIndex := 1\<rparr>, fieldA\<lparr>orderIndex := 2\<rparr>, fieldC\<lparr>orderIndex := 3\<rparr>]
   \<and> map orderIndex (activeFields (fst (handleReorder
          \<lparr>source_index = 0, destination_index = Some 1\<rparr> True Rejected [fieldA, fieldB, fieldC])))
       = [1, 3]
   \<and> map fid (activeFields (fst (handleReorder
          \<lparr>source_index = 0, destination_index = Some 1\<rparr> True Rejected [fieldA, fieldB, fieldC])))
       = [Some ''b'', Some ''c'']"
  by code_simp

section \<open>Properties of the destructive actions\<close>

lemma fetchHouseholdData_reads: "filter isMutating (fetchHouseholdData hid reads) = []"
  by (auto simp: fetchHouseholdData_def split: option.splits outcome.splits)

lemma fetchTags_reads: "filter isMutating (fetchTags reads) = []"
  by (auto simp: fetchTags_def split: outcome.splits)

text \<open>
  C8, as the specification states it: household-member removal, relationship update and
  tag deletion issue no mutating call. That fails for the removal of a member, which
  updates the person.
\<close>

theorem handleRemoveMember_updates_person:
  "filter isMutating (handleRemoveMember (Some ''h1'') ''m1'' ''p1'' (Resolved ()) (Resolved ()))
     = [Call (UpdateCall Person (Some ''p1'') HouseholdIdNull)]
   \<and> filter isMutating (handleRemoveMember (Some ''h1'') ''m1'' ''p1'' (Resolved ()) (Resolved ()))
     \<noteq> []"
  by (simp add: handleRemoveMember_def fetchHouseholdData_reads)

text \<open>
  C8, amended. Updating a relationship, and deleting a tag that no person carries, show a
  success notification and fetch again without any create or update call. Deleting a tag
  that is in use shows a warning and does nothing else. Removing a household member issues
  exactly one mutating call, the update of the person that clears its household reference
  (none on the membership record); the success notification and the new fetch follow only
  when that update resolves, an error notification otherwise.
\<close>

theorem destructive_actions_traces:
  "handleUpdateRelationship hid memberId newRelationship reads
     = MessageSuccess ''Relationship updated successfully'' # fetchHouseholdData hid reads
   \<and> filter isMutating (handleUpdateRelationship hid memberId newRelationship reads) = []
   \<and> (peopleCount = 0 \<longrightarrow>
        handleDeleteTag tagId peopleCount tagReads
          = MessageSuccess ''Tag deleted successfully'' # fetchTags tagReads)
   \<and> (peopleCount > 0 \<longrightarrow>
        handleDeleteTag tagId peopleCount tagReads
          = [MessageWarning ''Cannot delete tag that is in use. Remove it from all people first.''])
   \<and> filter isMutating (handleDeleteTag tagId peopleCount tagReads) = []
   \<and> handleRemoveMember hid memberId personId (Resolved u) reads
       = Call (UpdateCall Person (Some personId) HouseholdIdNull)
         # MessageSuccess ''Member removed successfully'' # fetchHouseholdData hid reads
   \<and> handleRemoveMember hid memberId personId Rejected reads
       = [Call (UpdateCall Person (Some personId) HouseholdIdNull),
          MessageError ''Failed to remove member'']
   \<and> filter isMutating (handleRemoveMember hid memberId personId updated reads)
       = [Call (UpdateCall Person (Some personId) HouseholdIdNull)]"
proof -
  have r: "filter isMutating (handleRemoveMember hid memberId personId updated reads)
       = [Call (UpdateCall Person (Some personId) HouseholdIdNull)]"
    by (cases updated) (simp_all add: handleRemoveMember_def fetchHouseholdData_reads)
  have t: "filter isMutating (handleDeleteTag tagId peopleCount tagReads) = []"
    by (simp add: handleDeleteTag_def fetchTags_reads)
  have u: "filter isMutating (handleUpdateRelationship hid memberId newRelationship reads) = []"
    by (simp add: handleUpdateRelationship_def fetchHouseholdData_reads)
  show ?thesis
    using r t u by (simp add: handleUpdateRelationship_def handleDeleteTag_def handleRemoveMember_def)
qed

theorem destructive_actions_traces_witness:
  "handleDeleteTag ''t1'' 0 (Resolved (\<lparr>success = True, message = None\<rparr>, \<lparr>success = True, message = None\<rparr>))
     = [MessageSuccess ''Tag deleted successfully'', Call (ListCall TagEntity), Call (ListCall Person)]
   \<and> handleDeleteTag ''t1'' 3 (Resolved (\<lparr>success = True, message = None\<rparr>, \<lparr>success = True, message = None\<rparr>))
     = [MessageWarning ''Cannot delete tag that is in use. Remove it from all people first.'']"
proof -
  let ?ok = "Resolved (\<lparr>success = True, message = None\<rparr>, \<lparr>success = True, message = None\<rparr>)"
  have f: "fetchTags ?ok = [Call (ListCall TagEntity), Call (ListCall Person)]"
    by (simp add: fetchTags_def)
  from destructive_actions_traces[of _ _ _ _ 0 "''t1''" ?ok]
  have a: "handleDeleteTag ''t1'' 0 ?ok = MessageSuccess ''Tag deleted successfully'' # fetchTags ?ok"
    by simp
  from destructive_actions_traces[of _ _ _ _ 3 "''t1''" ?ok]
  have b: "handleDeleteTag ''t1'' 3 ?ok
     = [MessageWarning ''Cannot delete tag that is in use. Remove it from all people first.'']"
    by simp
  show ?thesis using a b unfolding f by simp
qed

end
